theory Spec2Isabelle
  imports Complex_Main "HOL-Library.Word" "HOL-Library.AList"
begin

section \<open>JavaScript strings\<close>

text \<open>
  A JavaScript string is a sequence of UTF-16 code units. The regular expressions of the
  gateway carry no \<open>u\<close> flag, so \<open>replace\<close>, \<open>slice\<close>, \<open>trim\<close> and \<open>split\<close> all work
  on code units, and so does the model. \<open>js\<close> writes an ASCII literal as code units.
\<close>

type_synonym jschar = "16 word"
type_synonym jsstring = "jschar list"

definition js :: "string \<Rightarrow> jsstring" where
  "js s = map (\<lambda>c. of_nat (of_char c)) s"

text \<open>The character class \<open>[a-zA-Z0-9._-]\<close> of \<open>safeDeviceId\<close>.\<close>

definition isIdChar :: "jschar \<Rightarrow> bool" where
  "isIdChar c =
     ((0x61 \<le> c \<and> c \<le> 0x7A) \<or> (0x41 \<le> c \<and> c \<le> 0x5A) \<or> (0x30 \<le> c \<and> c \<le> 0x39)
      \<or> c = 0x2E \<or> c = 0x5F \<or> c = 0x2D)"

text \<open>
  \<^verbatim>\<open>id.replace(/[^a-zA-Z0-9._-]/g, "_").slice(0, 64) || "unknown"\<close>:
  every code unit outside the class becomes an underscore, the first 64 code units are
  kept, and the empty string (the only falsy string) is replaced by \<open>unknown\<close>.
\<close>

definition safeDeviceId :: "jsstring \<Rightarrow> jsstring" where
  "safeDeviceId ident =
     (let r = take 64 (map (\<lambda>c. if isIdChar c then c else 0x5F) ident)
      in if r = [] then js ''unknown'' else r)"

text \<open>
  The pattern of the specification, \<^verbatim>\<open>^[A-Za-z0-9._-]{1,64}$\<close>, written from the
  specification's words: between 1 and 64 code units, each of the class.
\<close>

definition matchesDeviceIdPattern :: "jsstring \<Rightarrow> bool" where
  "matchesDeviceIdPattern s = (1 \<le> length s \<and> length s \<le> 64 \<and> list_all isIdChar s)"

subsection \<open>Properties of \<open>safeDeviceId\<close>\<close>

lemma isIdChar_underscore: "isIdChar 0x5F"
  by (simp add: isIdChar_def)

lemma unknown_matches: "matchesDeviceIdPattern (js ''unknown'')"
  by (simp add: matchesDeviceIdPattern_def js_def isIdChar_def)

lemma replaced_all_idchars:
  "list_all isIdChar (map (\<lambda>c. if isIdChar c then c else 0x5F) s)"
  by (induction s) (simp_all add: isIdChar_underscore)

lemma list_all_take: "list_all P xs \<Longrightarrow> list_all P (take n xs)"
  by (simp add: list_all_iff) (meson in_set_takeD)

lemma safeDeviceId_matches: "matchesDeviceIdPattern (safeDeviceId s)"
proof (cases "take 64 (map (\<lambda>c. if isIdChar c then c else 0x5F) s) = []")
  case True
  then show ?thesis
    by (simp add: safeDeviceId_def unknown_matches)
next
  case False
  let ?r = "take 64 (map (\<lambda>c. if isIdChar c then c else 0x5F) s)"
  have "list_all isIdChar ?r"
    by (rule list_all_take) (rule replaced_all_idchars)
  moreover have "1 \<le> length ?r"
    using False by (cases ?r) simp_all
  moreover have "length ?r \<le> 64"
    by simp
  ultimately show ?thesis
    using False by (simp add: safeDeviceId_def matchesDeviceIdPattern_def Let_def)
qed

lemma map_keep_idchars:
  "list_all isIdChar s \<Longrightarrow> map (\<lambda>c. if isIdChar c then c else 0x5F) s = s"
  by (induction s) simp_all

lemma safeDeviceId_fixes_matching:
  assumes "matchesDeviceIdPattern s"
  shows "safeDeviceId s = s"
proof -
  from assms have a: "list_all isIdChar s" and l: "length s \<le> 64" and n: "s \<noteq> []"
    by (auto simp: matchesDeviceIdPattern_def)
  from a have "map (\<lambda>c. if isIdChar c then c else 0x5F) s = s"
    by (rule map_keep_idchars)
  with l n show ?thesis
    by (simp add: safeDeviceId_def)
qed

text \<open>
  Claim C9. \<open>safeDeviceId\<close> is idempotent, and for every input string its output matches
  \<^verbatim>\<open>^[A-Za-z0-9._-]{1,64}$\<close>.
\<close>

theorem safeDeviceId_idempotent_pattern:
  "safeDeviceId (safeDeviceId ident) = safeDeviceId ident
   \<and> matchesDeviceIdPattern (safeDeviceId ident)"
  by (simp add: safeDeviceId_matches safeDeviceId_fixes_matching)

theorem safeDeviceId_idempotent_pattern_witness:
  "safeDeviceId (safeDeviceId (js ''cam 7/a'')) = js ''cam_7_a''
   \<and> matchesDeviceIdPattern (js ''cam_7_a'')"
proof -
  have e: "safeDeviceId (js ''cam 7/a'') = js ''cam_7_a''"
    by (simp add: safeDeviceId_def js_def isIdChar_def)
  show ?thesis
    using safeDeviceId_idempotent_pattern [of "js ''cam 7/a''"] by (simp add: e)
qed


section \<open>Day buckets (\<open>day.ts\<close>)\<close>

subsection \<open>JavaScript numbers\<close>

text \<open>
  A JavaScript number is an IEEE 754 double: NaN, an infinity, or a finite value. A
  finite value is modelled as the rational it denotes (the sign of zero is dropped:
  nothing here divides or prints a zero). The result of an arithmetic operation is the
  exact result rounded to the nearest double, a tie to the even significand:
  \<open>toDouble\<close>. A double has a significand of 53 bits, the least exponent of a unit in
  the last place is \<open>-1074\<close>, and a rounded magnitude of \<open>2^1024\<close> or more overflows to
  an infinity.
\<close>

datatype jsnum = NaN | PosInfinity | NegInfinity | Finite rat

text \<open>The number of binary digits of a positive integer.\<close>

function bitLength :: "int \<Rightarrow> nat" where
  "bitLength n = (if n \<le> 0 then 0 else Suc (bitLength (n div 2)))"
  by pat_completeness auto

termination
  by (relation "measure nat") auto

declare bitLength.simps [simp del]

definition pow2 :: "int \<Rightarrow> rat" where
  "pow2 k = (if 0 \<le> k then 2 ^ nat k else 1 / 2 ^ nat (- k))"

text \<open>The binary exponent of a positive rational \<open>a\<close>: \<open>2^e \<le> a < 2^(e+1)\<close>.\<close>

definition ilog2 :: "rat \<Rightarrow> int" where
  "ilog2 a = (if 1 \<le> a then int (bitLength \<lfloor>a\<rfloor>) - 1
              else - int (bitLength (\<lceil>1 / a\<rceil> - 1)))"

definition roundHalfEven :: "rat \<Rightarrow> int" where
  "roundHalfEven x =
     (let f = \<lfloor>x\<rfloor>; r = x - of_int f
      in if r < 1 / 2 then f else if 1 / 2 < r then f + 1 else if even f then f else f + 1)"

definition toDouble :: "rat \<Rightarrow> jsnum" where
  "toDouble x =
     (if x = 0 then Finite 0
      else (let a = \<bar>x\<bar>;
                e = max (ilog2 a - 52) (- 1074);
                y = of_int (roundHalfEven (a / pow2 e)) * pow2 e
            in if pow2 1024 \<le> y then (if x < 0 then NegInfinity else PosInfinity)
               else Finite (if x < 0 then - y else y)))"

text \<open>The operators \<open>*\<close> and \<open>+\<close> on numbers.\<close>

fun jsMul :: "jsnum \<Rightarrow> jsnum \<Rightarrow> jsnum" where
  "jsMul (Finite x) (Finite y) = toDouble (x * y)"
| "jsMul NaN b = NaN"
| "jsMul a NaN = NaN"
| "jsMul (Finite x) PosInfinity =
     (if x = 0 then NaN else if 0 < x then PosInfinity else NegInfinity)"
| "jsMul (Finite x) NegInfinity =
     (if x = 0 then NaN else if 0 < x then NegInfinity else PosInfinity)"
| "jsMul PosInfinity (Finite y) =
     (if y = 0 then NaN else if 0 < y then PosInfinity else NegInfinity)"
| "jsMul NegInfinity (Finite y) =
     (if y = 0 then NaN else if 0 < y then NegInfinity else PosInfinity)"
| "jsMul PosInfinity PosInfinity = PosInfinity"
| "jsMul NegInfinity NegInfinity = PosInfinity"
| "jsMul PosInfinity NegInfinity = NegInfinity"
| "jsMul NegInfinity PosInfinity = NegInfinity"

fun jsAdd :: "jsnum \<Rightarrow> jsnum \<Rightarrow> jsnum" where
  "jsAdd (Finite x) (Finite y) = toDouble (x + y)"
| "jsAdd NaN b = NaN"
| "jsAdd a NaN = NaN"
| "jsAdd PosInfinity NegInfinity = NaN"
| "jsAdd NegInfinity PosInfinity = NaN"
| "jsAdd PosInfinity b = PosInfinity"
| "jsAdd NegInfinity b = NegInfinity"
| "jsAdd a PosInfinity = PosInfinity"
| "jsAdd a NegInfinity = NegInfinity"

text \<open>
  \<open>Math.round\<close> gives the nearest integer, a tie upwards; an integer is a double
  whenever the argument is one, so the result is exact.
\<close>

fun mathRound :: "jsnum \<Rightarrow> jsnum" where
  "mathRound (Finite x) = Finite (of_int \<lfloor>x + 1 / 2\<rfloor>)"
| "mathRound n = n"

text \<open>
  The time value of \<^verbatim>\<open>new Date(v)\<close> for a number \<open>v\<close>: none (an invalid date) when
  \<open>v\<close> is not finite or beyond 8.64e15 ms in magnitude, otherwise \<open>v\<close> without its
  fraction.
\<close>

fun timeClip :: "jsnum \<Rightarrow> int option" where
  "timeClip (Finite v) =
     (if 8640000000000000 < \<bar>v\<bar> then None
      else Some (if v < 0 then - \<lfloor>- v\<rfloor> else \<lfloor>v\<rfloor>))"
| "timeClip n = None"

subsection \<open>The offset of a device and the day of a capture\<close>

text \<open>
  The values a device row can hold in \<open>tzOffsetHours\<close>. \<open>Number(v)\<close> on a string is
  the runtime's string-to-number conversion, taken as the parameter \<open>strToNum\<close>.
\<close>

datatype jsval = JNumber jsnum | JNull | JUndefined | JBool bool | JString jsstring

definition toNumber :: "(jsstring \<Rightarrow> jsnum) \<Rightarrow> jsval \<Rightarrow> jsnum" where
  "toNumber strToNum v =
     (case v of
        JNumber n \<Rightarrow> n
      | JNull \<Rightarrow> Finite 0
      | JUndefined \<Rightarrow> NaN
      | JBool b \<Rightarrow> Finite (if b then 1 else 0)
      | JString s \<Rightarrow> strToNum s)"

text \<open>
  \<^verbatim>\<open>const n = typeof v === "number" ? v : Number(v);
  if (!Number.isFinite(n)) return null;
  if (n < -12 || n > 14) return null;
  return n;\<close>
\<close>

definition sanitizeTzOffsetHours :: "(jsstring \<Rightarrow> jsnum) \<Rightarrow> jsval \<Rightarrow> jsnum option" where
  "sanitizeTzOffsetHours strToNum v =
     (case toNumber strToNum v of
        Finite n \<Rightarrow> if n < -12 \<or> n > 14 then None else Some (Finite n)
      | _ \<Rightarrow> None)"

text \<open>Decimal digits of a number, as \<open>String(n)\<close> prints an integer.\<close>

fun showNat :: "nat \<Rightarrow> jsstring" where
  "showNat n =
     (if n < 10 then [of_nat (48 + n)] else showNat (n div 10) @ [of_nat (48 + n mod 10)])"

declare showNat.simps [simp del]

definition showInt :: "int \<Rightarrow> jsstring" where
  "showInt i = (if i < 0 then js ''-'' @ showNat (nat (- i)) else showNat (nat i))"

text \<open>\<^verbatim>\<open>s.padStart(2, "0")\<close>\<close>

definition padStart2 :: "jsstring \<Rightarrow> jsstring" where
  "padStart2 s = (if length s < 2 then replicate (2 - length s) 0x30 @ s else s)"

text \<open>
  The UTC calendar fields of a time value (milliseconds since the epoch), as
  \<open>getUTCFullYear\<close>, \<open>getUTCMonth() + 1\<close> and \<open>getUTCDate\<close> return them: the day
  number is the floor of the time value over 86 400 000, and the date is its proleptic
  Gregorian date.
\<close>

definition utcYearMonthDay :: "int \<Rightarrow> int \<times> int \<times> int" where
  "utcYearMonthDay t =
    (let z = t div 86400000 + 719468;
         era = z div 146097;
         doe = z - era * 146097;
         yoe = (doe - doe div 1460 + doe div 36524 - doe div 146096) div 365;
         doy = doe - (365 * yoe + yoe div 4 - yoe div 100);
         mp = (5 * doy + 2) div 153;
         d = doy - (153 * mp + 2) div 5 + 1;
         m = (if mp < 10 then mp + 3 else mp - 9);
         y = yoe + era * 400 + (if m \<le> 2 then 1 else 0)
     in (y, m, d))"

text \<open>
  The last four lines of \<open>dayFromCapturedAt\<close>: the UTC date of a \<open>Date\<close>, printed as
  \<^verbatim>\<open>`${yyyy}-${mm}-${dd}`\<close>. The fields of an invalid date are NaN.
\<close>

definition utcDay :: "int option \<Rightarrow> jsstring" where
  "utcDay shifted =
     (case shifted of
        None \<Rightarrow> js ''NaN-NaN-NaN''
      | Some t \<Rightarrow>
          (case utcYearMonthDay t of
             (yyyy, mm, dd) \<Rightarrow>
               showInt yyyy @ js ''-'' @ padStart2 (showInt mm) @ js ''-'' @ padStart2 (showInt dd)))"

text \<open>
  \<open>dayFromCapturedAt useDeviceTz dateParse capturedAtIso tzOffsetHours\<close>.
  \<open>useDeviceTz\<close> is \<^verbatim>\<open>process.env.USE_DEVICE_TZ_OFFSET === "1"\<close>, read at every call;
  \<open>dateParse\<close> is the runtime's \<^verbatim>\<open>new Date(s).getTime()\<close>, \<open>None\<close> for an invalid
  date; \<open>tzOffsetHours\<close> is \<open>None\<close> for \<open>null\<close> and \<open>undefined\<close>. The result is
  \<open>Inl\<close> the message of the error thrown, or \<open>Inr\<close> the day.
\<close>

definition dayFromCapturedAt ::
  "bool \<Rightarrow> (jsstring \<Rightarrow> int option) \<Rightarrow> jsstring \<Rightarrow> jsnum option \<Rightarrow> jsstring + jsstring" where
  "dayFromCapturedAt useDeviceTz dateParse capturedAtIso tzOffsetHours =
     (case dateParse capturedAtIso of
        None \<Rightarrow> Inl (js ''Invalid capturedAt '' @ capturedAtIso)
      | Some t \<Rightarrow>
          (let off = (case tzOffsetHours of
                        Some (Finite h) \<Rightarrow> if useDeviceTz then Finite h else Finite 0
                      | _ \<Rightarrow> Finite 0);
               shifted = timeClip (jsAdd (Finite (of_int t))
                                     (mathRound (jsMul (jsMul off (Finite 3600)) (Finite 1000))))
           in Inr (utcDay shifted)))"

text \<open>
  The specification's words for an offset that must not be used: NaN, or outside
  \<open>[-12, 14]\<close> (the infinities are outside).
\<close>

definition tzNaNOrOutOfRange :: "jsnum \<Rightarrow> bool" where
  "tzNaNOrOutOfRange n = (case n of Finite h \<Rightarrow> h < -12 \<or> h > 14 | _ \<Rightarrow> True)"

text \<open>
  A table for \<open>dateParse\<close>: 20:00 UTC on the first day of the epoch, and 9 ms before
  noon on the second.
\<close>

definition parseEpochEvening :: "jsstring \<Rightarrow> int option" where
  "parseEpochEvening s =
     (if s = js ''1970-01-01T20:00:00.000Z'' then Some 72000000
      else if s = js ''1970-01-02T11:59:59.991Z'' then Some 129599991
      else None)"

subsection \<open>Properties of the double arithmetic\<close>

lemma bitLength_le: "n < 2 ^ m \<Longrightarrow> bitLength n \<le> m"
proof (induction m arbitrary: n)
  case 0
  then show ?case
    by (simp add: bitLength.simps [of n])
next
  case (Suc m)
  show ?case
  proof (cases "n \<le> 0")
    case True
    then show ?thesis
      by (simp add: bitLength.simps [of n])
  next
    case False
    from Suc.prems have "n div 2 < 2 ^ m"
      by simp
    then have "bitLength (n div 2) \<le> m"
      by (rule Suc.IH)
    with False show ?thesis
      by (simp add: bitLength.simps [of n])
  qed
qed

lemma pow2_nonpos: "e \<le> 0 \<Longrightarrow> pow2 e = 1 / 2 ^ nat (- e)"
  by (cases "e = 0") (simp_all add: pow2_def)

lemma roundHalfEven_int: "roundHalfEven (of_int j) = j"
  by (simp add: roundHalfEven_def)

text \<open>An integer below \<open>2^53\<close> in magnitude is a double.\<close>

lemma toDouble_int:
  assumes "\<bar>t\<bar> < 2 ^ 53"
  shows "toDouble (of_int t) = Finite (of_int t)"
proof (cases "t = 0")
  case True
  then show ?thesis
    by (simp add: toDouble_def)
next
  case False
  define n where "n = \<bar>t\<bar>"
  have n: "1 \<le> n" "n < 2 ^ 53"
    using False assms by (simp_all add: n_def)
  have a: "\<bar>of_int t :: rat\<bar> = of_int n"
    by (simp add: n_def)
  have "bitLength n \<le> 53"
    using n(2) by (rule bitLength_le)
  then have il: "ilog2 (of_int n) \<le> 52"
    using n(1) by (simp add: ilog2_def)
  define e where "e = max (ilog2 (of_int n) - 52) (- 1074)"
  have e: "e \<le> 0"
    using il by (simp add: e_def)
  define k where "k = nat (- e)"
  have p: "pow2 e = 1 / 2 ^ k"
    using e by (simp add: pow2_nonpos k_def)
  have "(of_int n :: rat) / pow2 e = of_int (n * 2 ^ k)"
    by (simp add: p)
  then have "roundHalfEven (of_int n / pow2 e) = n * 2 ^ k"
    by (simp only: roundHalfEven_int)
  then have r: "of_int (roundHalfEven (of_int n / pow2 e)) * pow2 e = (of_int n :: rat)"
    by (simp add: p)
  have "(of_int n :: rat) < 2 ^ 53"
    using n(2) by (metis of_int_less_numeral_power_cancel_iff)
  also have "(2 :: rat) ^ 53 \<le> 2 ^ 1024"
    by (rule power_increasing) simp_all
  finally have big: "\<not> pow2 1024 \<le> (of_int n :: rat)"
    by (simp add: pow2_def)
  have s: "(if t < 0 then - of_int n else (of_int n :: rat)) = of_int t"
    by (simp add: n_def)
  have "toDouble (of_int t) = Finite (if t < 0 then - of_int n else of_int n)"
    using False big by (simp add: toDouble_def a Let_def e_def [symmetric] r)
  then show ?thesis
    by (simp only: s)
qed

lemma toDouble_numeral:
  "(numeral k :: int) < 2 ^ 53 \<Longrightarrow> toDouble (numeral k) = Finite (numeral k)"
  using toDouble_int [of "numeral k"] by simp

lemma toDouble_neg_numeral:
  "(numeral k :: int) < 2 ^ 53 \<Longrightarrow> toDouble (- numeral k) = Finite (- numeral k)"
  using toDouble_int [of "- numeral k"] by simp

lemma mathRound_int: "mathRound (Finite (of_int n)) = Finite (of_int n)"
proof -
  have "\<lfloor>(of_int n :: rat) + 1 / 2\<rfloor> = n"
    by (rule floor_unique) simp_all
  then show ?thesis
    by simp
qed

lemma mathRound_numeral: "mathRound (Finite (numeral k)) = Finite (numeral k)"
  using mathRound_int [of "numeral k"] by simp

lemma zero_offset_shift:
  "mathRound (jsMul (jsMul (Finite 0) (Finite 3600)) (Finite 1000)) = Finite 0"
  using mathRound_int [of 0] by (simp add: toDouble_def)

lemma timeClip_int:
  "\<bar>t\<bar> \<le> 8640000000000000 \<Longrightarrow> timeClip (Finite (of_int t)) = Some t"
proof -
  assume b: "\<bar>t\<bar> \<le> 8640000000000000"
  have "\<bar>of_int t :: rat\<bar> = of_int \<bar>t\<bar>"
    by simp
  also have "\<dots> \<le> of_int 8640000000000000"
    using b by (simp only: of_int_le_iff)
  finally have "\<not> 8640000000000000 < \<bar>of_int t :: rat\<bar>"
    by simp
  then show ?thesis
    by simp
qed

subsection \<open>Properties of the day bucket\<close>

lemma sanitize_invalid_is_null:
  "tzNaNOrOutOfRange (toNumber strToNum v) \<Longrightarrow> sanitizeTzOffsetHours strToNum v = None"
  by (auto simp: tzNaNOrOutOfRange_def sanitizeTzOffsetHours_def split: jsnum.splits)

lemma day_null_is_zero:
  "dayFromCapturedAt u P c None = dayFromCapturedAt u P c (Some (Finite 0))"
  by (cases "P c") (simp_all add: dayFromCapturedAt_def)

lemma day_nonfinite_is_zero:
  "tz \<in> {Some NaN, Some PosInfinity, Some NegInfinity}
   \<Longrightarrow> dayFromCapturedAt u P c tz = dayFromCapturedAt u P c (Some (Finite 0))"
  by (cases "P c") (auto simp: dayFromCapturedAt_def)

lemma day_setting_off_is_zero:
  "dayFromCapturedAt False P c tz = dayFromCapturedAt False P c (Some (Finite 0))"
  by (cases "P c") (simp_all add: dayFromCapturedAt_def split: option.splits jsnum.splits)

text \<open>With the offset 0 the day is the UTC day of the time parsed.\<close>

lemma day_zero_is_utc:
  assumes "P c = Some t" and "\<bar>t\<bar> \<le> 8640000000000000"
  shows "dayFromCapturedAt u P c (Some (Finite 0)) = Inr (utcDay (Some t))"
proof -
  from assms(2) have "\<bar>t\<bar> < 2 ^ 53"
    by simp
  then have j: "jsAdd (Finite (of_int t)) (Finite 0) = Finite (of_int t)"
    by (simp add: toDouble_int)
  from assms(2) have tc: "timeClip (Finite (of_int t)) = Some t"
    by (rule timeClip_int)
  from assms(1) show ?thesis
    by (simp add: dayFromCapturedAt_def zero_offset_shift j tc
        del: jsMul.simps jsAdd.simps timeClip.simps)
qed

lemma fifteen_hours_shift:
  "mathRound (jsMul (jsMul (Finite 15) (Finite 3600)) (Finite 1000)) = Finite 54000000"
  by (simp add: toDouble_numeral mathRound_numeral del: mathRound.simps)

lemma utcDay_epoch_evening: "utcDay (Some 72000000) = js ''1970-01-01''"
  by code_simp

lemma utcDay_next_morning: "utcDay (Some 126000000) = js ''1970-01-02''"
  by code_simp

lemma day_epoch_evening_utc:
  "dayFromCapturedAt True parseEpochEvening (js ''1970-01-01T20:00:00.000Z'') (Some (Finite 0))
   = Inr (js ''1970-01-01'')"
proof -
  have "parseEpochEvening (js ''1970-01-01T20:00:00.000Z'') = Some 72000000"
    by (simp add: parseEpochEvening_def)
  then show ?thesis
    by (simp add: day_zero_is_utc utcDay_epoch_evening)
qed

lemma day_epoch_evening_plus15:
  "dayFromCapturedAt True parseEpochEvening (js ''1970-01-01T20:00:00.000Z'') (Some (Finite 15))
   = Inr (js ''1970-01-02'')"
proof -
  have p: "parseEpochEvening (js ''1970-01-01T20:00:00.000Z'') = Some 72000000"
    by (simp add: parseEpochEvening_def)
  have "jsAdd (Finite (of_int 72000000)) (Finite 54000000) = Finite 126000000"
    by (simp add: toDouble_numeral)
  moreover have "timeClip (Finite 126000000) = Some 126000000"
    using timeClip_int [of 126000000] by simp
  ultimately show ?thesis
    by (simp add: dayFromCapturedAt_def p fifteen_hours_shift utcDay_next_morning
        del: jsMul.simps jsAdd.simps timeClip.simps of_int_numeral)
qed

lemma toDouble_first_product:
  "toDouble (- 3377699055934177 / 2 ^ 48 * 3600) = Finite (- 92771275339989 / 2 ^ 31)"
proof -
  have a: "\<bar>- 3377699055934177 / 2 ^ 48 * 3600 :: rat\<bar> = 3377699055934177 * 3600 / 2 ^ 48"
    by simp
  have "\<lfloor>(3377699055934177 * 3600 / 2 ^ 48 :: rat)\<rfloor> = 43199"
    by (rule floor_unique) simp_all
  moreover have "bitLength 43199 = 16"
    by (simp add: bitLength.simps)
  ultimately have i: "ilog2 (3377699055934177 * 3600 / 2 ^ 48) = 15"
    unfolding ilog2_def by simp
  have "\<lfloor>(3377699055934177 * 3600 / 2 ^ 48 / pow2 (- 37) :: rat)\<rfloor> = 5937361621759295"
    by (rule floor_unique) (simp_all add: pow2_def)
  then have r: "roundHalfEven (3377699055934177 * 3600 / 2 ^ 48 / pow2 (- 37)) = 5937361621759296"
    unfolding roundHalfEven_def Let_def by (simp add: pow2_def)
  have e: "max (15 - 52) (- 1074) = (- 37 :: int)"
    by simp
  show ?thesis
    unfolding toDouble_def Let_def a i e r by (simp add: pow2_def)
qed

lemma toDouble_second_product:
  "toDouble (- 92771275339989 / 2 ^ 31 * 1000) = Finite (- 86399983 / 2)"
proof -
  have a: "\<bar>- 92771275339989 / 2 ^ 31 * 1000 :: rat\<bar> = 92771275339989 * 1000 / 2 ^ 31"
    by simp
  have "\<lfloor>(92771275339989 * 1000 / 2 ^ 31 :: rat)\<rfloor> = 43199991"
    by (rule floor_unique) simp_all
  moreover have "bitLength 43199991 = 26"
    by (simp add: bitLength.simps)
  ultimately have i: "ilog2 (92771275339989 * 1000 / 2 ^ 31) = 25"
    unfolding ilog2_def by simp
  have "\<lfloor>(92771275339989 * 1000 / 2 ^ 31 / pow2 (- 27) :: rat)\<rfloor> = 5798204708749312"
    by (rule floor_unique) (simp_all add: pow2_def)
  then have r: "roundHalfEven (92771275339989 * 1000 / 2 ^ 31 / pow2 (- 27)) = 5798204708749312"
    unfolding roundHalfEven_def Let_def by (simp add: pow2_def)
  have e: "max (25 - 52) (- 1074) = (- 27 :: int)"
    by simp
  show ?thesis
    unfolding toDouble_def Let_def a i e r by (simp add: pow2_def)
qed

lemma utcDay_second_midnight: "utcDay (Some 86400000) = js ''1970-01-02''"
  by code_simp

text \<open>
  The offset is multiplied in double arithmetic. At the double nearest to
  \<open>-11.999997638888889\<close> the product with 3600 is rounded, the product with 1000 is
  then exactly \<open>-43199991.5\<close>, below which the exact product lies, and \<open>Math.round\<close>
  takes the tie upwards.
\<close>

lemma day_product_is_rounded:
  "jsMul (jsMul (Finite (- 3377699055934177 / 2 ^ 48)) (Finite 3600)) (Finite 1000)
     = Finite (- 86399983 / 2)
   \<and> - 3377699055934177 / 2 ^ 48 * 3600 * 1000 < (- 86399983 / 2 :: rat)
   \<and> dayFromCapturedAt True parseEpochEvening (js ''1970-01-02T11:59:59.991Z'')
        (Some (Finite (- 3377699055934177 / 2 ^ 48)))
      = Inr (js ''1970-01-02'')"
proof -
  have m: "jsMul (jsMul (Finite (- 3377699055934177 / 2 ^ 48)) (Finite 3600)) (Finite 1000)
           = Finite (- 86399983 / 2)"
    by (simp only: jsMul.simps toDouble_first_product toDouble_second_product)
  have "\<lfloor>(- 86399983 / 2 + 1 / 2 :: rat)\<rfloor> = - 43199991"
    by (rule floor_unique) simp_all
  then have r: "mathRound (Finite (- 86399983 / 2)) = Finite (- 43199991)"
    by simp
  have p: "parseEpochEvening (js ''1970-01-02T11:59:59.991Z'') = Some 129599991"
    by (simp add: parseEpochEvening_def js_def)
  have j: "jsAdd (Finite (of_int 129599991)) (Finite (- 43199991)) = Finite 86400000"
    by (simp add: toDouble_numeral)
  have t: "timeClip (Finite 86400000) = Some 86400000"
    using timeClip_int [of 86400000] by simp
  have d: "dayFromCapturedAt True parseEpochEvening (js ''1970-01-02T11:59:59.991Z'')
        (Some (Finite (- 3377699055934177 / 2 ^ 48)))
      = Inr (js ''1970-01-02'')"
    unfolding dayFromCapturedAt_def Let_def p
    by (simp only: option.case jsnum.case if_True m r j t utcDay_second_midnight)
  have l: "- 3377699055934177 / 2 ^ 48 * 3600 * 1000 < (- 86399983 / 2 :: rat)"
    by simp
  from m l d show ?thesis
    by (simp only: simp_thms)
qed

text \<open>
  Claim C6 as stated fails for \<open>dayFromCapturedAt\<close>: with \<open>USE_DEVICE_TZ_OFFSET=1\<close> an
  offset of 15 hours, outside \<open>[-12, 14]\<close>, is not treated as 0. A capture at 20:00 UTC
  lands on the next day.
\<close>

theorem day_out_of_range_not_zero:
  "tzNaNOrOutOfRange (Finite 15)
   \<and> dayFromCapturedAt True parseEpochEvening (js ''1970-01-01T20:00:00.000Z'') (Some (Finite 15))
      = Inr (js ''1970-01-02'')
   \<and> dayFromCapturedAt True parseEpochEvening (js ''1970-01-01T20:00:00.000Z'') (Some (Finite 0))
      = Inr (js ''1970-01-01'')"
  by (simp add: day_epoch_evening_utc day_epoch_evening_plus15 tzNaNOrOutOfRange_def)

text \<open>
  Claim C6, amended. The day bucket is a function of \<open>capturedAt\<close>, \<open>tz\<close> and the
  \<open>USE_DEVICE_TZ_OFFSET\<close> setting alone. \<open>dayFromCapturedAt\<close> itself treats as 0 a \<open>tz\<close>
  that is null, NaN or infinite, and every \<open>tz\<close> when the setting is off; it does not
  check the range. The range \<open>[-12, 14]\<close> is enforced by \<open>sanitizeTzOffsetHours\<close>,
  through which the registered offset passes when the session is set up: a registered
  offset that is NaN or outside \<open>[-12, 14]\<close> becomes null there. In each of these cases
  the day is the UTC day of \<open>capturedAt\<close>: the UTC date of the time \<open>t\<close> that
  \<open>capturedAt\<close> parses to, printed as \<open>yyyy-mm-dd\<close>.
\<close>

theorem day_tz_treated_as_zero:
  "(tzNaNOrOutOfRange (toNumber strToNum v) \<longrightarrow>
      dayFromCapturedAt u P c (sanitizeTzOffsetHours strToNum v)
      = dayFromCapturedAt u P c (Some (Finite 0)))
   \<and> (tz \<in> {None, Some NaN, Some PosInfinity, Some NegInfinity} \<longrightarrow>
      dayFromCapturedAt u P c tz = dayFromCapturedAt u P c (Some (Finite 0)))
   \<and> dayFromCapturedAt False P c tz = dayFromCapturedAt False P c (Some (Finite 0))
   \<and> (P c = Some t \<and> \<bar>t\<bar> \<le> 8640000000000000 \<longrightarrow>
      dayFromCapturedAt u P c (Some (Finite 0)) = Inr (utcDay (Some t))
      \<and> (tzNaNOrOutOfRange (toNumber strToNum v) \<longrightarrow>
           dayFromCapturedAt u P c (sanitizeTzOffsetHours strToNum v) = Inr (utcDay (Some t)))
      \<and> (tz \<in> {None, Some NaN, Some PosInfinity, Some NegInfinity} \<longrightarrow>
           dayFromCapturedAt u P c tz = Inr (utcDay (Some t)))
      \<and> dayFromCapturedAt False P c tz = Inr (utcDay (Some t)))"
proof -
  have 1: "dayFromCapturedAt u P c (sanitizeTzOffsetHours strToNum v)
           = dayFromCapturedAt u P c (Some (Finite 0))"
    if "tzNaNOrOutOfRange (toNumber strToNum v)"
  proof -
    from that have "sanitizeTzOffsetHours strToNum v = None"
      by (rule sanitize_invalid_is_null)
    then show ?thesis
      by (simp add: day_null_is_zero)
  qed
  have 2: "dayFromCapturedAt u P c tz = dayFromCapturedAt u P c (Some (Finite 0))"
    if "tz \<in> {None, Some NaN, Some PosInfinity, Some NegInfinity}"
  proof -
    from that consider "tz = None" | "tz \<in> {Some NaN, Some PosInfinity, Some NegInfinity}"
      by auto
    then show ?thesis
      by cases (simp_all only: day_null_is_zero day_nonfinite_is_zero)
  qed
  have 3: "dayFromCapturedAt False P c tz = dayFromCapturedAt False P c (Some (Finite 0))"
    by (rule day_setting_off_is_zero)
  have 4: "dayFromCapturedAt w P c (Some (Finite 0)) = Inr (utcDay (Some t))"
    if "P c = Some t \<and> \<bar>t\<bar> \<le> 8640000000000000" for w
    using that by (simp add: day_zero_is_utc)
  show ?thesis
    using 1 2 3 4 by metis
qed

theorem day_tz_treated_as_zero_witness:
  "tzNaNOrOutOfRange (toNumber (\<lambda>s. NaN) (JNumber (Finite 15)))
   \<and> dayFromCapturedAt True parseEpochEvening (js ''1970-01-01T20:00:00.000Z'')
        (sanitizeTzOffsetHours (\<lambda>s. NaN) (JNumber (Finite 15)))
      = Inr (js ''1970-01-01'')
   \<and> dayFromCapturedAt True parseEpochEvening (js ''1970-01-01T20:00:00.000Z'') (Some NaN)
      = Inr (js ''1970-01-01'')
   \<and> dayFromCapturedAt False parseEpochEvening (js ''1970-01-01T20:00:00.000Z'')
        (Some (Finite 15))
      = Inr (js ''1970-01-01'')"
proof -
  have h: "tzNaNOrOutOfRange (toNumber (\<lambda>s. NaN) (JNumber (Finite 15)))"
    by (simp add: tzNaNOrOutOfRange_def toNumber_def)
  have m: "Some NaN \<in> {None, Some NaN, Some PosInfinity, Some NegInfinity}"
    by simp
  have p: "parseEpochEvening (js ''1970-01-01T20:00:00.000Z'') = Some 72000000
           \<and> \<bar>72000000 :: int\<bar> \<le> 8640000000000000"
    by (simp add: parseEpochEvening_def)
  show ?thesis
    using h m p
      day_tz_treated_as_zero [of "\<lambda>s. NaN" "JNumber (Finite 15)" True parseEpochEvening
        "js ''1970-01-01T20:00:00.000Z''" "Some NaN" 72000000]
      day_tz_treated_as_zero [of "\<lambda>s. NaN" "JNumber (Finite 15)" False parseEpochEvening
        "js ''1970-01-01T20:00:00.000Z''" "Some (Finite 15)" 72000000]
    by (simp add: utcDay_epoch_evening)
qed


section \<open>Device authentication (\<open>device-auth.ts\<close>)\<close>

text \<open>
  What \<open>DeviceAuth.verify\<close> reaches through \<open>ctx\<close> and the runtime:
  \<^item> \<open>ctxLog label args\<close> is \<^verbatim>\<open>ctx.log(label, {...})\<close> with the strings logged:
    \<open>None\<close> when the logger returns, \<open>Some e\<close> when it throws \<open>e\<close>;
  \<^item> \<open>datasource\<close> is \<^verbatim>\<open>ctx?.ellipsies?.pgManager?.datasource\<close>, \<open>None\<close> when it is
    missing; when present it is the query
    \<^verbatim>\<open>getRepository("certificate").findOne({ where: { identity } })\<close>, which either
    rejects (\<open>Inl\<close> the error) or returns no row (\<open>Inr None\<close>) or the row's \<open>cert\<close>
    (\<open>Inr (Some pem)\<close>, the empty string when the row has none);
  \<^item> \<open>base64Decode\<close> is \<^verbatim>\<open>Buffer.from(s, "base64")\<close>, which returns bytes or
    throws (\<open>Inl\<close>);
  \<^item> \<open>cryptoVerify pem message sig\<close> is \<^verbatim>\<open>crypto.verify("RSA-SHA256", ...)\<close>,
    which returns a boolean or throws (\<open>Inl\<close>).
\<close>

record authCtx =
  ctxLog :: "jsstring \<Rightarrow> jsstring list \<Rightarrow> jsstring option"
  datasource :: "(jsstring \<Rightarrow> jsstring + jsstring option) option"
  base64Decode :: "jsstring \<Rightarrow> jsstring + 8 word list"
  cryptoVerify :: "jsstring \<Rightarrow> jsstring \<Rightarrow> 8 word list \<Rightarrow> jsstring + bool"

text \<open>A call of \<open>ctx.log\<close> followed by the rest of the function.\<close>

definition logged :: "authCtx \<Rightarrow> jsstring \<Rightarrow> jsstring list \<Rightarrow> jsstring + bool \<Rightarrow> jsstring + bool" where
  "logged ctx label args rest = (case ctxLog ctx label args of Some e \<Rightarrow> Inl e | None \<Rightarrow> rest)"

text \<open>\<open>ds()\<close> throws when the datasource is missing.\<close>

definition ds :: "authCtx \<Rightarrow> jsstring + (jsstring \<Rightarrow> jsstring + jsstring option)" where
  "ds ctx = (case datasource ctx of
               None \<Rightarrow> Inl (js ''ctx.ellipsies.pgManager.datasource is missing'')
             | Some d \<Rightarrow> Inr d)"

text \<open>
  The body of the second \<open>try\<close> of \<open>verify\<close>: \<open>crypto.verify\<close>, and a log line when
  it returns \<open>false\<close>.
\<close>

definition verifyAttempt ::
  "authCtx \<Rightarrow> jsstring \<Rightarrow> jsstring \<Rightarrow> jsstring \<Rightarrow> 8 word list \<Rightarrow> jsstring + bool" where
  "verifyAttempt ctx deviceId pem message sig =
     (case cryptoVerify ctx pem message sig of
        Inl e \<Rightarrow> Inl e
      | Inr ok \<Rightarrow>
          if ok then Inr ok
          else logged ctx (js ''[rtsp-tunnel][auth] verify failed'') [deviceId] (Inr ok))"

text \<open>
  \<open>verify\<close>. The first log line, \<open>ds()\<close>, the query, and the log lines of the missing
  certificate and of the message are outside any \<open>try\<close>; the first \<open>try\<close> covers the
  base64 decoding, the second \<open>verifyAttempt\<close>; the log lines of the two \<open>catch\<close>
  blocks are again covered by nothing.
\<close>

definition verify :: "authCtx \<Rightarrow> jsstring \<Rightarrow> jsstring \<Rightarrow> jsstring \<Rightarrow> jsstring + bool" where
  "verify ctx deviceId nonceB64 sigB64 =
     logged ctx (js ''[rtsp-tunnel][auth] verify'') [deviceId, nonceB64, sigB64]
       (case ds ctx of
          Inl e \<Rightarrow> Inl e
        | Inr findOne \<Rightarrow>
            (case findOne deviceId of
               Inl e \<Rightarrow> Inl e
             | Inr row \<Rightarrow>
                 if row = None \<or> row = Some []
                 then logged ctx (js ''[rtsp-tunnel][auth] no cert for deviceId'') [deviceId]
                        (Inr False)
                 else (let pem = the row;
                           message = deviceId @ js ''.'' @ nonceB64
                       in logged ctx (js ''[rtsp-tunnel][auth] message'') [message]
                            (case base64Decode ctx sigB64 of
                               Inl e \<Rightarrow>
                                 logged ctx (js ''[rtsp-tunnel][auth] bad base64 sig'') [deviceId]
                                   (Inr False)
                             | Inr sig \<Rightarrow>
                                 (case verifyAttempt ctx deviceId pem message sig of
                                    Inl e \<Rightarrow>
                                      logged ctx (js ''[rtsp-tunnel][auth] verify error'')
                                        [deviceId, e] (Inr False)
                                  | Inr ok \<Rightarrow> Inr ok)))))"





subsection \<open>Properties of \<open>verify\<close>\<close>










section \<open>The tunnel gateway (\<open>rtsp-tunnel-gateway.ts\<close>)\<close>

subsection \<open>Text commands\<close>

text \<open>
  White space as \<open>trim\<close> and the class \<open>\s\<close> read it.
\<close>

definition isWhiteSpace :: "jschar \<Rightarrow> bool" where
  "isWhiteSpace c =
     (c = 0x09 \<or> c = 0x0A \<or> c = 0x0B \<or> c = 0x0C \<or> c = 0x0D \<or> c = 0x20 \<or> c = 0xA0
      \<or> c = 0x1680 \<or> (0x2000 \<le> c \<and> c \<le> 0x200A) \<or> c = 0x2028 \<or> c = 0x2029
      \<or> c = 0x202F \<or> c = 0x205F \<or> c = 0x3000 \<or> c = 0xFEFF)"

definition trim :: "jsstring \<Rightarrow> jsstring" where
  "trim s = rev (dropWhile isWhiteSpace (rev (dropWhile isWhiteSpace s)))"

text \<open>
  \<open>toUpperCase\<close> on the ASCII letters. The gateway only compares the result with
  \<open>HELLO\<close> and \<open>AUTH\<close> (followed by a space): no code unit outside ASCII has an upper
  case that is or begins with one of these letters or a space and matches there, so the
  comparisons come out as in the runtime.
\<close>

definition toUpperCase :: "jsstring \<Rightarrow> jsstring" where
  "toUpperCase s = map (\<lambda>c. if 0x61 \<le> c \<and> c \<le> 0x7A then c - 0x20 else c) s"

definition startsWith :: "jsstring \<Rightarrow> jsstring \<Rightarrow> bool" where
  "startsWith s p = (take (length p) s = p)"

text \<open>
  \<^verbatim>\<open>s.split(/\s+/)\<close>: the pieces between maximal runs of white space; a run at either
  end leaves an empty piece there, and the empty string gives one empty piece.
\<close>

fun splitWs :: "bool \<Rightarrow> jsstring \<Rightarrow> jsstring \<Rightarrow> jsstring list" where
  "splitWs inSep cur [] = [rev cur]"
| "splitWs inSep cur (c # cs) =
     (if isWhiteSpace c
      then (if inSep then splitWs True [] cs else rev cur # splitWs True [] cs)
      else splitWs False (c # cur) cs)"

definition split_ws :: "jsstring \<Rightarrow> jsstring list" where
  "split_ws s = splitWs False [] s"

definition parseHello :: "jsstring \<Rightarrow> (jsstring option \<times> jsstring) option" where
  "parseHello msg =
     (let parts = split_ws (trim msg) in
      if length parts < 2 then None
      else if toUpperCase (parts ! 0) \<noteq> js ''HELLO'' then None
      else if length parts = 2 then Some (None, parts ! 1)
      else Some (if parts ! 1 = [] then None else Some (parts ! 1), parts ! 2))"


subsection \<open>Sessions, events and the gateway state\<close>

type_synonym addr = nat
type_synonym sock = nat
type_synonym proc = nat

text \<open>\<open>ws.readyState\<close> of a session's WebSocket once the connection is accepted.\<close>

datatype readyState = OPEN | CLOSING | CLOSED

text \<open>
  The \<open>Session\<close> object. \<open>sessionId\<close> is its \<open>id\<close>, \<open>ws\<close> the ready state of its
  WebSocket, \<open>helloTimer\<close> tells whether the field holds a timer, \<open>sessionClosed\<close> is its
  \<open>closed\<close> flag; \<open>proxySock\<close> and \<open>ffmpeg\<close> hold the identity of the socket and of
  the child process.
\<close>

record session =
  sessionId :: jsstring
  ws :: readyState
  remote :: jsstring
  deviceId :: jsstring
  helloAt :: "nat option"
  payloadId :: "jsstring option"
  nonceB64 :: "jsstring option"
  authed :: bool
  captureActive :: bool
  proxySock :: "sock option"
  ffmpeg :: "proc option"
  tzOffsetHours :: "jsnum option"
  helloTimer :: bool
  sessionClosed :: bool

datatype stage = hello | auth | capture | proxy | unknown | store

record SnapshotEvent =
  evSessionId :: jsstring
  evDeviceId :: jsstring
  evPayloadId :: "jsstring option"
  evRemote :: jsstring

record SnapshotCapturedEvent = SnapshotEvent +
  localPath :: jsstring
  capturedAt :: jsstring
  evTzOffsetHours :: "jsnum option"

record SnapshotFailedEvent = SnapshotEvent +
  stage :: stage
  error :: jsstring

datatype emitted = Captured SnapshotCapturedEvent | Failed SnapshotFailedEvent

datatype frame = Text jsstring | Binary "8 word list"

text \<open>
  \<open>RtspTunnelTunnelParams\<close>, and the gateway's configuration, which holds the
  process-wide \<open>camUser\<close>, \<open>camPass\<close> and \<open>rtspPath\<close> under the same names.
  \<open>pathJoin\<close> (\<open>path.join\<close>) and \<open>strToNum\<close> belong to the runtime.
\<close>

record RtspTunnelTunnelParams =
  camUser :: jsstring
  camPass :: jsstring
  rtspPath :: jsstring

record config = RtspTunnelTunnelParams +
  outDir :: jsstring
  autoCapture :: bool
  requireAuth :: bool
  pathJoin :: "jsstring \<Rightarrow> jsstring \<Rightarrow> jsstring"
  strToNum :: "jsstring \<Rightarrow> jsnum"

text \<open>
  What is awaited: every \<open>await\<close> of a handler, every armed timer and every socket with
  listeners leaves an entry, and the continuation that runs later removes it.
\<close>

datatype task =
    AwaitTz addr
  | AwaitVerify addr
  | AwaitParams addr
  | AwaitFfmpeg addr proc jsstring
  | SockListeners addr sock
  | HelloTimer addr
  | AwaitStopped

text \<open>
  The gateway. Session objects live in \<open>objs\<close> and are referred to by their index: a
  handler keeps its session object after the object has left the table \<open>sessions\<close>
  (the \<open>Map\<close>, in insertion order). The remaining fields record what the gateway did:
  frames handed to \<open>ws.send\<close>, events emitted, sockets destroyed, bytes written to
  sockets, processes spawned and killed.
\<close>

record gateway =
  objs :: "session list"
  sessions :: "(jsstring \<times> addr) list"
  globalCaptureInFlight :: bool
  globalCaptureSessionId :: "jsstring option"
  started :: bool
  pending :: "task list"
  wsOut :: "(addr \<times> frame) list"
  emitted :: "emitted list"
  destroyed :: "sock list"
  sockOut :: "(sock \<times> 8 word list) list"
  spawned :: "(proc \<times> RtspTunnelTunnelParams \<times> jsstring) list"
  killed :: "proc list"
  nextSock :: nat

definition initial :: gateway where
  "initial =
     \<lparr>objs = [], sessions = [], globalCaptureInFlight = False, globalCaptureSessionId = None,
      started = False, pending = [], wsOut = [], emitted = [], destroyed = [], sockOut = [],
      spawned = [], killed = [], nextSock = 0\<rparr>"

definition modify :: "addr \<Rightarrow> (session \<Rightarrow> session) \<Rightarrow> gateway \<Rightarrow> gateway" where
  "modify a f g = g\<lparr>objs := (objs g)[a := f (objs g ! a)]\<rparr>"

definition isWsOpen :: "session \<Rightarrow> bool" where
  "isWsOpen s = (ws s = OPEN)"

text \<open>
  \<open>sendText\<close>, \<open>sendOpen\<close> and \<open>sendClose\<close> wrap \<open>ws.send\<close> in a \<open>try\<close>; on a socket
  that is not open nothing is sent.
\<close>

definition wsSend :: "addr \<Rightarrow> frame \<Rightarrow> gateway \<Rightarrow> gateway" where
  "wsSend a f g = (if isWsOpen (objs g ! a) then g\<lparr>wsOut := wsOut g @ [(a, f)]\<rparr> else g)"

definition sendText :: "addr \<Rightarrow> jsstring \<Rightarrow> gateway \<Rightarrow> gateway" where
  "sendText a s g = wsSend a (Text s) g"

definition sendOpen :: "addr \<Rightarrow> gateway \<Rightarrow> gateway" where
  "sendOpen a g = wsSend a (Binary [3]) g"

definition sendClose :: "addr \<Rightarrow> gateway \<Rightarrow> gateway" where
  "sendClose a g = wsSend a (Binary [4]) g"

text \<open>\<^verbatim>\<open>if (this.isWsOpen(ws)) this.sendClose(ws)\<close>\<close>

definition sendCloseIfOpen :: "addr \<Rightarrow> gateway \<Rightarrow> gateway" where
  "sendCloseIfOpen a g = (if isWsOpen (objs g ! a) then sendClose a g else g)"

text \<open>\<open>ws.close()\<close> starts the closing handshake of an open socket.\<close>

definition wsClose :: "addr \<Rightarrow> gateway \<Rightarrow> gateway" where
  "wsClose a g = modify a (\<lambda>s. if ws s = OPEN then s\<lparr>ws := CLOSING\<rparr> else s) g"

text \<open>The other effects, one primitive each.\<close>

definition await :: "task \<Rightarrow> gateway \<Rightarrow> gateway" where
  "await t g = g\<lparr>pending := pending g @ [t]\<rparr>"

definition resume :: "task \<Rightarrow> gateway \<Rightarrow> gateway" where
  "resume t g = g\<lparr>pending := remove1 t (pending g)\<rparr>"

definition emit :: "emitted \<Rightarrow> gateway \<Rightarrow> gateway" where
  "emit e g = g\<lparr>emitted := emitted g @ [e]\<rparr>"

definition destroy :: "sock \<Rightarrow> gateway \<Rightarrow> gateway" where
  "destroy k g = g\<lparr>destroyed := destroyed g @ [k]\<rparr>"

definition kill :: "proc \<Rightarrow> gateway \<Rightarrow> gateway" where
  "kill p g = g\<lparr>killed := killed g @ [p]\<rparr>"

definition sockWrite :: "sock \<Rightarrow> 8 word list \<Rightarrow> gateway \<Rightarrow> gateway" where
  "sockWrite k b g = g\<lparr>sockOut := sockOut g @ [(k, b)]\<rparr>"

text \<open>
  The capture slot: \<open>reserve\<close> sets \<open>globalCaptureInFlight\<close> and
  \<open>globalCaptureSessionId\<close>, \<open>release\<close> clears both.
\<close>

definition reserve :: "jsstring \<Rightarrow> gateway \<Rightarrow> gateway" where
  "reserve i g = g\<lparr>globalCaptureInFlight := True, globalCaptureSessionId := Some i\<rparr>"

definition release :: "gateway \<Rightarrow> gateway" where
  "release g = g\<lparr>globalCaptureInFlight := False, globalCaptureSessionId := None\<rparr>"

subsection \<open>Connection and cleanup\<close>

definition newSession :: "jsstring \<Rightarrow> jsstring \<Rightarrow> session" where
  "newSession i r =
     \<lparr>sessionId = i, ws = OPEN, remote = r, deviceId = js ''unknown'', helloAt = None,
      payloadId = None, nonceB64 = None, authed = False, captureActive = False,
      proxySock = None, ffmpeg = None, tzOffsetHours = None, helloTimer = False,
      sessionClosed = False\<rparr>"

text \<open>
  \<open>onConnection\<close>, with the session id drawn by \<open>newSessionId\<close> as \<open>i\<close>: the session
  is registered, \<open>READY\<close> is sent and the HELLO timer is armed.
\<close>

definition onConnection :: "jsstring \<Rightarrow> jsstring \<Rightarrow> gateway \<Rightarrow> gateway" where
  "onConnection i r g =
     (let a = length (objs g);
          g1 = g\<lparr>objs := objs g @ [newSession i r],
                 sessions := AList.update i a (sessions g)\<rparr>;
          g2 = sendText a (js ''READY'') g1;
          g3 = modify a (\<lambda>s. s\<lparr>helloTimer := True\<rparr>) g2
      in await (HelloTimer a) g3)"

text \<open>The \<open>cleanup\<close> closure of a session, block by block.\<close>

definition clearHelloTimer :: "addr \<Rightarrow> gateway \<Rightarrow> gateway" where
  "clearHelloTimer a g =
     (if helloTimer (objs g ! a)
      then modify a (\<lambda>s. s\<lparr>helloTimer := False\<rparr>) (resume (HelloTimer a) g)
      else g)"

definition killFfmpeg :: "addr \<Rightarrow> gateway \<Rightarrow> gateway" where
  "killFfmpeg a g =
     (case ffmpeg (objs g ! a) of
        None \<Rightarrow> g
      | Some p \<Rightarrow> modify a (\<lambda>s. s\<lparr>ffmpeg := None\<rparr>) (kill p g))"

definition destroyProxySock :: "addr \<Rightarrow> gateway \<Rightarrow> gateway" where
  "destroyProxySock a g =
     (case proxySock (objs g ! a) of
        None \<Rightarrow> g
      | Some k \<Rightarrow> modify a (\<lambda>s. s\<lparr>proxySock := None\<rparr>) (destroy k g))"

definition releaseIfOwner :: "addr \<Rightarrow> gateway \<Rightarrow> gateway" where
  "releaseIfOwner a g =
     (if globalCaptureInFlight g \<and> globalCaptureSessionId g = Some (sessionId (objs g ! a))
      then release g else g)"

definition unregister :: "addr \<Rightarrow> gateway \<Rightarrow> gateway" where
  "unregister a g = g\<lparr>sessions := AList.delete (sessionId (objs g ! a)) (sessions g)\<rparr>"

definition cleanup :: "addr \<Rightarrow> gateway \<Rightarrow> gateway" where
  "cleanup a g =
     (if sessionClosed (objs g ! a) then g
      else unregister a (sendCloseIfOpen a (releaseIfOwner a (destroyProxySock a
             (killFfmpeg a (clearHelloTimer a
               (modify a (\<lambda>s. s\<lparr>sessionClosed := True\<rparr>) g)))))))"

text \<open>
  The \<open>close\<close> event of the WebSocket (the socket is closed by then) and its \<open>error\<close>
  event (the socket is closing) both run \<open>cleanup\<close>.
\<close>

definition onWsClose :: "addr \<Rightarrow> gateway \<Rightarrow> gateway" where
  "onWsClose a g = cleanup a (modify a (\<lambda>s. s\<lparr>ws := CLOSED\<rparr>) g)"

definition onWsError :: "addr \<Rightarrow> gateway \<Rightarrow> gateway" where
  "onWsError a g = cleanup a (wsClose a g)"

subsection \<open>Camera profile\<close>

text \<open>
  The sensor metadata of a device, \<open>{sensorKey: row}\<close> in the order \<open>for ... in\<close>
  visits it; of a row only \<open>meta\<close> is read (\<open>None\<close> when the row has none), an object
  whose values are taken as strings. \<open>null\<close> and \<open>undefined\<close> metadata read as the
  empty object.
\<close>

type_synonym meta = "(jsstring \<times> jsstring) list"
type_synonym sensorMeta = "(jsstring \<times> meta option) list"

fun pullCameraProfile :: "sensorMeta \<Rightarrow> meta option" where
  "pullCameraProfile [] = None"
| "pullCameraProfile ((k, row) # rest) =
     (let m = (case row of None \<Rightarrow> [] | Some x \<Rightarrow> x);
          keys = map fst m
      in if js ''RTSP_PATH'' \<in> set keys \<or> js ''CAM_USER'' \<in> set keys
            \<or> js ''CAM_PASS'' \<in> set keys
         then Some m
         else pullCameraProfile rest)"

text \<open>\<open>x || d\<close> on an optional string: the default when \<open>x\<close> is missing or empty.\<close>

definition orElse :: "jsstring option \<Rightarrow> jsstring \<Rightarrow> jsstring" where
  "orElse x d = (case x of None \<Rightarrow> d | Some v \<Rightarrow> if v = [] then d else v)"

text \<open>
  \<open>buildTunnelParams\<close>, given the profile \<open>pullCameraProfile\<close> returned. Reading a
  property of \<open>null\<close> throws a \<open>TypeError\<close>, with this message.
\<close>

definition nullProfileMessage :: jsstring where
  "nullProfileMessage =
     js ''Cannot read properties of null (reading '' @ [0x27] @ js ''CAM_USER'' @ [0x27] @ js '')''"

definition buildTunnelParams :: "config \<Rightarrow> meta option \<Rightarrow> jsstring + RtspTunnelTunnelParams" where
  "buildTunnelParams cfg cmProfile =
     (case cmProfile of
        None \<Rightarrow> Inl nullProfileMessage
      | Some m \<Rightarrow>
          Inr \<lparr>camUser = orElse (map_of m (js ''CAM_USER'')) (camUser cfg),
               camPass = orElse (map_of m (js ''CAM_PASS'')) (camPass cfg),
               rtspPath = orElse (map_of m (js ''RTSP_PATH'')) (rtspPath cfg)\<rparr>)"

subsection \<open>Capture\<close>

text \<open>
  \<open>mkOutFile\<close>, with the current time in ISO form as \<open>isoNow\<close>; \<open>:\<close> and \<open>.\<close> become
  \<open>-\<close>.
\<close>

definition mkOutFile :: "config \<Rightarrow> jsstring \<Rightarrow> jsstring \<Rightarrow> jsstring" where
  "mkOutFile cfg dev isoNow =
     pathJoin cfg (pathJoin cfg (outDir cfg) (safeDeviceId dev))
       (js ''snap-'' @ map (\<lambda>c. if c = 0x3A \<or> c = 0x2E then 0x2D else c) isoNow @ js ''.jpg'')"

text \<open>
  The guards of \<open>captureOnce\<close>, in their order: the message of the error thrown, if any.
\<close>

definition captureGuard :: "config \<Rightarrow> addr \<Rightarrow> gateway \<Rightarrow> jsstring option" where
  "captureGuard cfg a g =
     (let s = objs g ! a in
      if camPass cfg = [] then Some (js ''CAM_PASS is required'')
      else if \<not> isWsOpen s then Some (js ''WS not open'')
      else if captureActive s then Some (js ''Session capture already active'')
      else if globalCaptureInFlight g then Some (js ''Global capture already in progress'')
      else if requireAuth cfg \<and> \<not> authed s then Some (js ''Not authenticated'')
      else None)"

text \<open>The child process is identified by its position in \<open>spawned\<close>.\<close>

definition spawnFfmpeg :: "addr \<Rightarrow> RtspTunnelTunnelParams \<Rightarrow> jsstring \<Rightarrow> gateway \<Rightarrow> gateway" where
  "spawnFfmpeg a params outFile g =
     (let p = length (spawned g)
      in await (AwaitFfmpeg a p outFile)
           (modify a (\<lambda>s. s\<lparr>ffmpeg := Some p\<rparr>)
              (g\<lparr>spawned := spawned g @ [(p, params, outFile)]\<rparr>)))"

text \<open>
  \<open>captureOnce\<close> up to its \<open>await\<close>: the guards, the reservation of the capture slot,
  the output file and the spawn of ffmpeg. \<open>Inl\<close> is the message of the error thrown
  together with the state it leaves; \<open>mkdirError\<close> is the error of \<open>fs.mkdirSync\<close>,
  if it fails.
\<close>

definition captureOnceBegin ::
  "config \<Rightarrow> addr \<Rightarrow> RtspTunnelTunnelParams \<Rightarrow> jsstring \<Rightarrow> jsstring option \<Rightarrow> gateway
   \<Rightarrow> (jsstring \<times> gateway) + gateway" where
  "captureOnceBegin cfg a params isoNow mkdirError g =
     (case captureGuard cfg a g of
        Some e \<Rightarrow> Inl (e, g)
      | None \<Rightarrow>
          (let g1 = modify a (\<lambda>s. s\<lparr>captureActive := True\<rparr>)
                      (reserve (sessionId (objs g ! a)) g)
           in case mkdirError of
                Some e \<Rightarrow> Inl (e, g1)
              | None \<Rightarrow>
                  Inr (spawnFfmpeg a params (mkOutFile cfg (deviceId (objs g1 ! a)) isoNow) g1)))"

text \<open>The \<open>catch\<close> block of the auto-capture: close the WebSocket, emit \<open>snapshot:failed\<close>.\<close>

definition failedEvent :: "session \<Rightarrow> stage \<Rightarrow> jsstring \<Rightarrow> SnapshotFailedEvent" where
  "failedEvent s st msg =
     \<lparr>evSessionId = sessionId s, evDeviceId = deviceId s, evPayloadId = payloadId s,
      evRemote = remote s, stage = st, error = msg\<rparr>"

definition captureFailed :: "addr \<Rightarrow> jsstring \<Rightarrow> gateway \<Rightarrow> gateway" where
  "captureFailed a msg g =
     (let g1 = wsClose a g in emit (Failed (failedEvent (objs g1 ! a) capture msg)) g1)"

text \<open>\<open>maybeAutoCapture\<close> up to the first \<open>await\<close> of the function it starts.\<close>

definition maybeAutoCapture :: "config \<Rightarrow> addr \<Rightarrow> gateway \<Rightarrow> gateway" where
  "maybeAutoCapture cfg a g =
     (let s = objs g ! a in
      if \<not> autoCapture cfg then g
      else if \<not> isWsOpen s then g
      else if captureActive s then g
      else if globalCaptureInFlight g then g
      else if deviceId s = js ''unknown'' then g
      else if requireAuth cfg \<and> \<not> authed s then g
      else await (AwaitParams a) g)"

text \<open>
  The auto-capture resumes when \<open>buildTunnelParams\<close> settles: \<open>metaResult\<close> is what
  \<open>pullDeviceSensorMeta\<close> gave (\<open>Inl\<close> when it failed). It then runs \<open>captureOnce\<close>
  up to its \<open>await\<close>.
\<close>

definition paramsResolved ::
  "config \<Rightarrow> addr \<Rightarrow> jsstring + sensorMeta \<Rightarrow> jsstring \<Rightarrow> jsstring option \<Rightarrow> gateway \<Rightarrow> gateway" where
  "paramsResolved cfg a metaResult isoNow mkdirError g =
     (case metaResult of
        Inl e \<Rightarrow> captureFailed a e g
      | Inr sm \<Rightarrow>
          (case buildTunnelParams cfg (pullCameraProfile sm) of
             Inl e \<Rightarrow> captureFailed a e g
           | Inr params \<Rightarrow>
               (case captureOnceBegin cfg a params isoNow mkdirError g of
                  Inl (e, g1) \<Rightarrow> captureFailed a e g1
                | Inr g1 \<Rightarrow> g1)))"

text \<open>
  The rest of \<open>captureOnce\<close> and of the auto-capture, once ffmpeg has closed. \<open>code\<close>
  is the exit code (\<open>None\<close> when the process was killed by a signal or failed to start:
  the promise then resolves to 1), \<open>file\<close> the size of the output file, \<open>None\<close> when it
  does not exist.
\<close>

definition capturedEvent :: "session \<Rightarrow> jsstring \<Rightarrow> jsstring \<Rightarrow> SnapshotCapturedEvent" where
  "capturedEvent s outFile isoNow =
     \<lparr>evSessionId = sessionId s, evDeviceId = deviceId s, evPayloadId = payloadId s,
      evRemote = remote s, localPath = outFile, capturedAt = isoNow,
      evTzOffsetHours = tzOffsetHours s\<rparr>"

definition captureOnceEnd :: "addr \<Rightarrow> gateway \<Rightarrow> gateway" where
  "captureOnceEnd a g =
     release (modify a (\<lambda>s. s\<lparr>captureActive := False, ffmpeg := None\<rparr>) g)"

definition ffmpegClosed ::
  "addr \<Rightarrow> jsstring \<Rightarrow> int option \<Rightarrow> nat option \<Rightarrow> jsstring \<Rightarrow> gateway \<Rightarrow> gateway" where
  "ffmpegClosed a outFile code file isoNow g =
     (let c = (case code of None \<Rightarrow> 1 | Some n \<Rightarrow> n);
          g1 = captureOnceEnd a g
      in if c \<noteq> 0
         then captureFailed a (js ''ffmpeg failed (exit '' @ showInt c @ js '')'')
                (sendCloseIfOpen a g1)
         else if file = None
         then captureFailed a (js ''ffmpeg success but file not found'') g1
         else wsClose a (emit (Captured (capturedEvent (objs g1 ! a) outFile isoNow)) g1))"

subsection \<open>HELLO and AUTH\<close>

text \<open>
  A text message, up to the first \<open>await\<close> of its handler. \<open>now\<close> is \<open>Date.now()\<close>.
\<close>

definition onHello :: "addr \<Rightarrow> jsstring \<Rightarrow> nat \<Rightarrow> gateway \<Rightarrow> gateway" where
  "onHello a msg now g =
     (case parseHello msg of
        None \<Rightarrow> sendText a (js ''HELLO_FAIL invalid_format'') g
      | Some (pid, dev) \<Rightarrow>
          await (AwaitTz a)
            (modify a (\<lambda>s. s\<lparr>payloadId := pid, deviceId := safeDeviceId dev,
                                 helloAt := Some now\<rparr>) g))"

definition onAuth :: "addr \<Rightarrow> jsstring \<Rightarrow> gateway \<Rightarrow> gateway" where
  "onAuth a msg g =
     (let s = objs g ! a;
          parts = split_ws msg;
          devId = safeDeviceId (if 1 < length parts then parts ! 1 else js ''unknown'')
      in if nonceB64 s = None \<or> nonceB64 s = Some []
         then sendText a (js ''AUTH_FAIL no_chal'') g
         else if deviceId s \<noteq> js ''unknown'' \<and> devId \<noteq> deviceId s
         then sendText a (js ''AUTH_FAIL device_mismatch'') g
         else await (AwaitVerify a)
                (if deviceId s = js ''unknown''
                 then modify a (\<lambda>s. s\<lparr>deviceId := devId\<rparr>) g else g))"

definition onText :: "addr \<Rightarrow> jsstring \<Rightarrow> nat \<Rightarrow> gateway \<Rightarrow> gateway" where
  "onText a data now g =
     (let msg = trim data in
      if startsWith (toUpperCase msg) (js ''HELLO '') then onHello a msg now g
      else if startsWith (toUpperCase msg) (js ''AUTH '') then onAuth a msg g
      else g)"

text \<open>
  The HELLO handler resumes when \<open>pullDeviceTimezoneOffsetHours\<close> settles: \<open>Inl\<close>
  when the lookup failed (the handler ends there), \<open>Inr v\<close> with the \<open>tzOffsetHours\<close>
  of the device row (\<open>JNull\<close> when there is none). \<open>nonce\<close> is what \<open>makeNonceB64\<close>
  draws.
\<close>

definition helloResumed ::
  "config \<Rightarrow> addr \<Rightarrow> jsstring + jsval \<Rightarrow> jsstring \<Rightarrow> gateway \<Rightarrow> gateway" where
  "helloResumed cfg a tzResult nonce g =
     (case tzResult of
        Inl e \<Rightarrow> g
      | Inr v \<Rightarrow>
          (let g1 = modify a (\<lambda>s. s\<lparr>tzOffsetHours := sanitizeTzOffsetHours (strToNum cfg) v,
                                      nonceB64 := Some nonce\<rparr>) g;
               g2 = sendText a (js ''CHAL '' @ nonce) g1
           in if \<not> requireAuth cfg
              then maybeAutoCapture cfg a
                     (sendText a (js ''AUTH_OK'') (modify a (\<lambda>s. s\<lparr>authed := True\<rparr>) g2))
              else g2))"

text \<open>
  The AUTH handler resumes when \<open>verifyAuth\<close> settles: \<open>Inl\<close> when it threw (the
  handler ends there), \<open>Inr ok\<close> otherwise.
\<close>

definition authResumed :: "config \<Rightarrow> addr \<Rightarrow> jsstring + bool \<Rightarrow> gateway \<Rightarrow> gateway" where
  "authResumed cfg a result g =
     (case result of
        Inl e \<Rightarrow> g
      | Inr ok \<Rightarrow>
          if \<not> ok
          then (let g1 = sendText a (js ''AUTH_FAIL verify_failed'')
                           (modify a (\<lambda>s. s\<lparr>authed := False\<rparr>) g)
                in if requireAuth cfg then wsClose a g1 else g1)
          else maybeAutoCapture cfg a
                 (sendText a (js ''AUTH_OK'') (modify a (\<lambda>s. s\<lparr>authed := True\<rparr>) g)))"

text \<open>A binary message: type 2 is written to the bound socket, if it is not destroyed.\<close>

definition onBinary :: "addr \<Rightarrow> 8 word list \<Rightarrow> gateway \<Rightarrow> gateway" where
  "onBinary a b g =
     (case b of
        [] \<Rightarrow> g
      | t # payload \<Rightarrow>
          if t = 2
          then (case proxySock (objs g ! a) of
                  None \<Rightarrow> g
                | Some k \<Rightarrow> if k \<in> set (destroyed g) then g else sockWrite k payload g)
          else g)"

text \<open>The HELLO timer fires.\<close>

definition helloTimeout :: "addr \<Rightarrow> gateway \<Rightarrow> gateway" where
  "helloTimeout a g =
     (let s = objs g ! a in
      if \<not> isWsOpen s then g
      else if deviceId s \<noteq> js ''unknown'' then g
      else wsClose a g)"

subsection \<open>The loopback proxy\<close>

text \<open>
  \<open>onProxyConnection\<close>: the accepted socket is a new one, \<open>nextSock\<close>. The session is
  looked up by \<open>globalCaptureSessionId\<close> (an empty id is falsy and reads as none).
\<close>

definition capturingSession :: "gateway \<Rightarrow> addr option" where
  "capturingSession g =
     (case globalCaptureSessionId g of
        None \<Rightarrow> None
      | Some i \<Rightarrow> if i = [] then None else map_of (sessions g) i)"

definition accept :: "gateway \<Rightarrow> gateway" where
  "accept g = g\<lparr>nextSock := Suc (nextSock g)\<rparr>"

definition onProxyConnection :: "gateway \<Rightarrow> gateway" where
  "onProxyConnection g =
     (let ffSock = nextSock g; g0 = accept g in
      case capturingSession g0 of
        None \<Rightarrow> destroy ffSock g0
      | Some a \<Rightarrow>
          if \<not> captureActive (objs g0 ! a) \<or> \<not> isWsOpen (objs g0 ! a)
          then destroy ffSock g0
          else await (SockListeners a ffSock)
                 (sendOpen a (modify a (\<lambda>s. s\<lparr>proxySock := Some ffSock\<rparr>) g0)))"

text \<open>Data from ffmpeg goes to the device as a type 1 frame.\<close>

definition onSockData :: "addr \<Rightarrow> 8 word list \<Rightarrow> gateway \<Rightarrow> gateway" where
  "onSockData a chunk g =
     (if \<not> isWsOpen (objs g ! a) then g else wsSend a (Binary (1 # chunk)) g)"

text \<open>The \<open>cleanup\<close> closure of a proxied socket, run on its \<open>close\<close> and \<open>error\<close>.\<close>

definition proxyCleanup :: "addr \<Rightarrow> sock \<Rightarrow> gateway \<Rightarrow> gateway" where
  "proxyCleanup a ffSock g =
     (let g1 = (if proxySock (objs g ! a) = Some ffSock
                then modify a (\<lambda>s. s\<lparr>proxySock := None\<rparr>) g else g)
      in sendCloseIfOpen a (destroy ffSock g1))"

subsection \<open>Start and stop\<close>

text \<open>
  \<open>start\<close> changes the state before its first \<open>await\<close> only. \<open>stop\<close>, up to its
  first \<open>await\<close>, cleans every registered session and clears the table; once the
  servers have closed, \<open>stopEnd\<close>, the rest of \<open>stop\<close>, releases the capture slot.
\<close>

definition start :: "gateway \<Rightarrow> gateway" where
  "start g = (if started g then g else g\<lparr>started := True\<rparr>)"

definition stop :: "gateway \<Rightarrow> gateway" where
  "stop g =
     (if \<not> started g then g
      else await AwaitStopped
             ((fold cleanup (map snd (sessions g)) (g\<lparr>started := False\<rparr>))\<lparr>sessions := []\<rparr>))"

definition stopEnd :: "gateway \<Rightarrow> gateway" where
  "stopEnd g = release g"

subsection \<open>The gateway as a transition system\<close>

text \<open>
  One input is one turn of the event loop: an event of the outside world, or a
  continuation that resumes with what it awaited. A WebSocket connection arrives while
  the gateway is started or still closing its servers, a loopback connection while it is
  started. \<open>ctx.log\<close> is taken to return normally; what it prints is not part of the
  state.
\<close>

datatype input =
    Start
  | Stop
  | Stopped
  | Connection jsstring jsstring
  | WsClose addr
  | WsError addr
  | TextMessage addr jsstring nat
  | BinaryMessage addr "8 word list"
  | TzResolved addr "jsstring + jsval" jsstring
  | VerifyResolved addr "jsstring + bool"
  | ParamsResolved addr "jsstring + sensorMeta" jsstring "jsstring option"
  | FfmpegClosed addr proc jsstring "int option" "nat option" jsstring
  | ProxyConnection
  | SockData addr sock "8 word list"
  | SockError addr sock
  | SockClose addr sock
  | HelloTimeout addr

definition live :: "gateway \<Rightarrow> addr \<Rightarrow> bool" where
  "live g a = (a < length (objs g) \<and> ws (objs g ! a) \<noteq> CLOSED)"

definition awaited :: "gateway \<Rightarrow> task \<Rightarrow> bool" where
  "awaited g t = (t \<in> set (pending g))"

fun step :: "config \<Rightarrow> input \<Rightarrow> gateway \<Rightarrow> gateway option" where
  "step cfg Start g = Some (start g)"
| "step cfg Stop g = Some (stop g)"
| "step cfg Stopped g =
     (if awaited g AwaitStopped then Some (stopEnd (resume AwaitStopped g)) else None)"
| "step cfg (Connection i r) g =
     (if started g \<or> awaited g AwaitStopped then Some (onConnection i r g) else None)"
| "step cfg (WsClose a) g = (if live g a then Some (onWsClose a g) else None)"
| "step cfg (WsError a) g = (if live g a then Some (onWsError a g) else None)"
| "step cfg (TextMessage a d now) g = (if live g a then Some (onText a d now g) else None)"
| "step cfg (BinaryMessage a b) g = (if live g a then Some (onBinary a b g) else None)"
| "step cfg (TzResolved a r nonce) g =
     (if awaited g (AwaitTz a) then Some (helloResumed cfg a r nonce (resume (AwaitTz a) g))
      else None)"
| "step cfg (VerifyResolved a r) g =
     (if awaited g (AwaitVerify a) then Some (authResumed cfg a r (resume (AwaitVerify a) g))
      else None)"
| "step cfg (ParamsResolved a r isoNow mk) g =
     (if awaited g (AwaitParams a)
      then Some (paramsResolved cfg a r isoNow mk (resume (AwaitParams a) g))
      else None)"
| "step cfg (FfmpegClosed a p outFile code file isoNow) g =
     (if awaited g (AwaitFfmpeg a p outFile)
      then Some (ffmpegClosed a outFile code file isoNow (resume (AwaitFfmpeg a p outFile) g))
      else None)"
| "step cfg ProxyConnection g = (if started g then Some (onProxyConnection g) else None)"
| "step cfg (SockData a k chunk) g =
     (if awaited g (SockListeners a k) \<and> k \<notin> set (destroyed g)
      then Some (onSockData a chunk g) else None)"
| "step cfg (SockError a k) g =
     (if awaited g (SockListeners a k) then Some (proxyCleanup a k g) else None)"
| "step cfg (SockClose a k) g =
     (if awaited g (SockListeners a k)
      then Some (proxyCleanup a k (resume (SockListeners a k) g)) else None)"
| "step cfg (HelloTimeout a) g =
     (if awaited g (HelloTimer a)
      then Some (helloTimeout a (resume (HelloTimer a) g)) else None)"

fun run :: "config \<Rightarrow> input list \<Rightarrow> gateway \<Rightarrow> gateway option" where
  "run cfg [] g = Some g"
| "run cfg (i # is) g = (case step cfg i g of None \<Rightarrow> None | Some g1 \<Rightarrow> run cfg is g1)"

inductive reachable :: "config \<Rightarrow> gateway \<Rightarrow> bool" for cfg where
  reachable_initial: "reachable cfg initial"
| reachable_step: "reachable cfg g \<Longrightarrow> step cfg i g = Some g1 \<Longrightarrow> reachable cfg g1"


section \<open>Properties of the gateway\<close>

subsection \<open>What the primitives leave alone\<close>

lemma nth_list_update_if:
  "xs[a := v] ! b = (if a = b \<and> a < length xs then v else xs ! b)"
  by (cases "a < length xs") (auto simp: nth_list_update list_update_beyond)

lemmas effect_defs =
  wsSend_def sendText_def sendOpen_def sendClose_def sendCloseIfOpen_def await_def resume_def
  emit_def destroy_def kill_def sockWrite_def reserve_def release_def unregister_def accept_def

lemma objs_effects [simp]:
  "objs (wsSend a fr g) = objs g"
  "objs (sendText a t g) = objs g"
  "objs (sendOpen a g) = objs g"
  "objs (sendClose a g) = objs g"
  "objs (sendCloseIfOpen a g) = objs g"
  "objs (await tk g) = objs g"
  "objs (resume tk g) = objs g"
  "objs (emit e g) = objs g"
  "objs (destroy k g) = objs g"
  "objs (kill p g) = objs g"
  "objs (sockWrite k bs g) = objs g"
  "objs (reserve i g) = objs g"
  "objs (release g) = objs g"
  "objs (unregister a g) = objs g"
  "objs (accept g) = objs g"
  by (simp_all add: effect_defs)

lemma objs_modify [simp]: "objs (modify a f g) = (objs g)[a := f (objs g ! a)]"
  by (simp add: modify_def)

lemma objs_wsClose [simp]:
  "objs (wsClose a g) = (objs g)[a := (if ws (objs g ! a) = OPEN then (objs g ! a)\<lparr>ws := CLOSING\<rparr>
                                        else objs g ! a)]"
  by (simp add: wsClose_def)


lemma emitted_effects [simp]:
  "emitted (wsSend a fr g) = emitted g"
  "emitted (sendText a t g) = emitted g"
  "emitted (sendOpen a g) = emitted g"
  "emitted (sendClose a g) = emitted g"
  "emitted (sendCloseIfOpen a g) = emitted g"
  "emitted (await tk g) = emitted g"
  "emitted (resume tk g) = emitted g"
  "emitted (emit e g) = emitted g @ [e]"
  "emitted (destroy k g) = emitted g"
  "emitted (kill p g) = emitted g"
  "emitted (sockWrite k bs g) = emitted g"
  "emitted (reserve i g) = emitted g"
  "emitted (release g) = emitted g"
  "emitted (unregister a g) = emitted g"
  "emitted (accept g) = emitted g"
  "emitted (modify a f g) = emitted g"
  "emitted (wsClose a g) = emitted g"
  by (simp_all add: effect_defs modify_def wsClose_def)

lemma sessions_effects [simp]:
  "sessions (wsSend a fr g) = sessions g"
  "sessions (sendText a t g) = sessions g"
  "sessions (sendOpen a g) = sessions g"
  "sessions (sendClose a g) = sessions g"
  "sessions (sendCloseIfOpen a g) = sessions g"
  "sessions (await tk g) = sessions g"
  "sessions (resume tk g) = sessions g"
  "sessions (emit e g) = sessions g"
  "sessions (destroy k g) = sessions g"
  "sessions (kill p g) = sessions g"
  "sessions (sockWrite k bs g) = sessions g"
  "sessions (reserve i g) = sessions g"
  "sessions (release g) = sessions g"
  "sessions (unregister a g) = AList.delete (sessionId (objs g ! a)) (sessions g)"
  "sessions (accept g) = sessions g"
  "sessions (modify a f g) = sessions g"
  "sessions (wsClose a g) = sessions g"
  by (simp_all add: effect_defs modify_def wsClose_def)

lemma nextSock_effects [simp]:
  "nextSock (wsSend a fr g) = nextSock g"
  "nextSock (sendText a t g) = nextSock g"
  "nextSock (sendOpen a g) = nextSock g"
  "nextSock (sendClose a g) = nextSock g"
  "nextSock (sendCloseIfOpen a g) = nextSock g"
  "nextSock (await tk g) = nextSock g"
  "nextSock (resume tk g) = nextSock g"
  "nextSock (emit e g) = nextSock g"
  "nextSock (destroy k g) = nextSock g"
  "nextSock (kill p g) = nextSock g"
  "nextSock (sockWrite k bs g) = nextSock g"
  "nextSock (reserve i g) = nextSock g"
  "nextSock (release g) = nextSock g"
  "nextSock (unregister a g) = nextSock g"
  "nextSock (accept g) = Suc (nextSock g)"
  "nextSock (modify a f g) = nextSock g"
  "nextSock (wsClose a g) = nextSock g"
  by (simp_all add: effect_defs modify_def wsClose_def)

lemma maybeAutoCapture_keeps [simp]:
  "objs (maybeAutoCapture cfg a g) = objs g"
  "emitted (maybeAutoCapture cfg a g) = emitted g"
  "sessions (maybeAutoCapture cfg a g) = sessions g"
  "nextSock (maybeAutoCapture cfg a g) = nextSock g"
  by (simp_all add: maybeAutoCapture_def Let_def)

subsection \<open>Frames\<close>

text \<open>
  \<open>frame P N E g g1\<close> says what a turn may have done between \<open>g\<close> and \<open>g1\<close>: session
  objects are only added and sockets only allocated; every old object is related to its
  new value by \<open>P\<close> and every added object satisfies \<open>N\<close>; the events emitted are
  kept and those added satisfy \<open>E\<close>; the table refers to the objects it referred to, or
  to added ones.
\<close>

definition tableFrame :: "gateway \<Rightarrow> gateway \<Rightarrow> bool" where
  "tableFrame g g1 =
     (\<forall>a \<in> snd ` set (sessions g1).
        a \<in> snd ` set (sessions g) \<or> (length (objs g) \<le> a \<and> a < length (objs g1)))"

definition frame ::
  "(session \<Rightarrow> session \<Rightarrow> bool) \<Rightarrow> (session \<Rightarrow> bool) \<Rightarrow> (emitted \<Rightarrow> bool)
   \<Rightarrow> gateway \<Rightarrow> gateway \<Rightarrow> bool" where
  "frame P N E g g1 =
     (length (objs g) \<le> length (objs g1) \<and> nextSock g \<le> nextSock g1
      \<and> (\<forall>b < length (objs g1).
            if b < length (objs g) then P (objs g ! b) (objs g1 ! b) else N (objs g1 ! b))
      \<and> (\<exists>es. emitted g1 = emitted g @ es \<and> list_all E es)
      \<and> tableFrame g g1)"

text \<open>
  \<open>P\<close> and \<open>N\<close> survive a change of the fields that carry neither the bound socket
  nor the authentication.
\<close>

definition plain :: "(session \<Rightarrow> session \<Rightarrow> bool) \<Rightarrow> (session \<Rightarrow> bool) \<Rightarrow> bool" where
  "plain P N =
     ((\<forall>s s1 x. P s s1 \<longrightarrow> P s (s1\<lparr>ws := x\<rparr>)) \<and> (\<forall>s x. N s \<longrightarrow> N (s\<lparr>ws := x\<rparr>))
      \<and> (\<forall>s s1 x. P s s1 \<longrightarrow> P s (s1\<lparr>deviceId := x\<rparr>)) \<and> (\<forall>s x. N s \<longrightarrow> N (s\<lparr>deviceId := x\<rparr>))
      \<and> (\<forall>s s1 x. P s s1 \<longrightarrow> P s (s1\<lparr>helloAt := x\<rparr>)) \<and> (\<forall>s x. N s \<longrightarrow> N (s\<lparr>helloAt := x\<rparr>))
      \<and> (\<forall>s s1 x. P s s1 \<longrightarrow> P s (s1\<lparr>payloadId := x\<rparr>)) \<and> (\<forall>s x. N s \<longrightarrow> N (s\<lparr>payloadId := x\<rparr>))
      \<and> (\<forall>s s1 x. P s s1 \<longrightarrow> P s (s1\<lparr>nonceB64 := x\<rparr>)) \<and> (\<forall>s x. N s \<longrightarrow> N (s\<lparr>nonceB64 := x\<rparr>))
      \<and> (\<forall>s s1 x. P s s1 \<longrightarrow> P s (s1\<lparr>captureActive := x\<rparr>))
      \<and> (\<forall>s x. N s \<longrightarrow> N (s\<lparr>captureActive := x\<rparr>))
      \<and> (\<forall>s s1 x. P s s1 \<longrightarrow> P s (s1\<lparr>ffmpeg := x\<rparr>)) \<and> (\<forall>s x. N s \<longrightarrow> N (s\<lparr>ffmpeg := x\<rparr>))
      \<and> (\<forall>s s1 x. P s s1 \<longrightarrow> P s (s1\<lparr>tzOffsetHours := x\<rparr>))
      \<and> (\<forall>s x. N s \<longrightarrow> N (s\<lparr>tzOffsetHours := x\<rparr>))
      \<and> (\<forall>s s1 x. P s s1 \<longrightarrow> P s (s1\<lparr>helloTimer := x\<rparr>)) \<and> (\<forall>s x. N s \<longrightarrow> N (s\<lparr>helloTimer := x\<rparr>))
      \<and> (\<forall>s s1 x. P s s1 \<longrightarrow> P s (s1\<lparr>sessionClosed := x\<rparr>))
      \<and> (\<forall>s x. N s \<longrightarrow> N (s\<lparr>sessionClosed := x\<rparr>))
      \<and> (\<forall>s s1. P s s1 \<longrightarrow> P s (s1\<lparr>proxySock := None\<rparr>))
      \<and> (\<forall>s. N s \<longrightarrow> N (s\<lparr>proxySock := None\<rparr>))
      \<and> (\<forall>s. P s s) \<and> (\<forall>i r. N (newSession i r)))"

definition authing :: "(session \<Rightarrow> session \<Rightarrow> bool) \<Rightarrow> (session \<Rightarrow> bool) \<Rightarrow> bool" where
  "authing P N =
     ((\<forall>s s1 x. P s s1 \<longrightarrow> P s (s1\<lparr>authed := x\<rparr>)) \<and> (\<forall>s x. N s \<longrightarrow> N (s\<lparr>authed := x\<rparr>)))"

definition binding :: "(session \<Rightarrow> session \<Rightarrow> bool) \<Rightarrow> (session \<Rightarrow> bool) \<Rightarrow> bool" where
  "binding P N =
     ((\<forall>s s1 x. P s s1 \<longrightarrow> P s (s1\<lparr>proxySock := x\<rparr>)) \<and> (\<forall>s x. N s \<longrightarrow> N (s\<lparr>proxySock := x\<rparr>)))"

text \<open>The \<open>proxySock\<close> of a session is kept or cleared; a new session has none.\<close>

definition sockKept :: "session \<Rightarrow> session \<Rightarrow> bool" where
  "sockKept s s1 = (proxySock s1 = proxySock s \<or> proxySock s1 = None)"

definition noSock :: "session \<Rightarrow> bool" where
  "noSock s = (proxySock s = None)"

text \<open>The \<open>authed\<close> flag of a session is kept; a new session is not authenticated.\<close>

definition authKept :: "session \<Rightarrow> session \<Rightarrow> bool" where
  "authKept s s1 = (authed s1 = authed s)"

definition notAuthed :: "session \<Rightarrow> bool" where
  "notAuthed s = (\<not> authed s)"

definition isFailed :: "emitted \<Rightarrow> bool" where
  "isFailed e = (case e of Failed f \<Rightarrow> True | Captured c \<Rightarrow> False)"

lemma frame_refl [simp]: "plain P N \<Longrightarrow> frame P N E g g"
  by (simp add: frame_def plain_def tableFrame_def)

lemma frame_effects [simp]:
  "frame P N E g g1 \<Longrightarrow> frame P N E g (wsSend a fr g1)"
  "frame P N E g g1 \<Longrightarrow> frame P N E g (sendText a t g1)"
  "frame P N E g g1 \<Longrightarrow> frame P N E g (sendOpen a g1)"
  "frame P N E g g1 \<Longrightarrow> frame P N E g (sendClose a g1)"
  "frame P N E g g1 \<Longrightarrow> frame P N E g (sendCloseIfOpen a g1)"
  "frame P N E g g1 \<Longrightarrow> frame P N E g (await tk g1)"
  "frame P N E g g1 \<Longrightarrow> frame P N E g (resume tk g1)"
  "frame P N E g g1 \<Longrightarrow> frame P N E g (destroy k g1)"
  "frame P N E g g1 \<Longrightarrow> frame P N E g (kill p g1)"
  "frame P N E g g1 \<Longrightarrow> frame P N E g (sockWrite k bs g1)"
  "frame P N E g g1 \<Longrightarrow> frame P N E g (reserve i g1)"
  "frame P N E g g1 \<Longrightarrow> frame P N E g (release g1)"
  "frame P N E g g1 \<Longrightarrow> frame P N E g (maybeAutoCapture cfg a g1)"
  by (simp_all add: frame_def tableFrame_def)

lemma frame_accept [simp]: "frame P N E g g1 \<Longrightarrow> frame P N E g (accept g1)"
  by (simp add: frame_def tableFrame_def)

lemma frame_emit [simp]: "frame P N E g g1 \<Longrightarrow> E e \<Longrightarrow> frame P N E g (emit e g1)"
  by (auto simp: frame_def tableFrame_def)

lemma snd_set_delete: "snd ` set (AList.delete k xs) \<subseteq> snd ` set xs"
  by (induction xs) auto

lemma snd_set_update: "snd ` set (AList.update k v xs) \<subseteq> insert v (snd ` set xs)"
  by (induction xs) auto

lemma tableFrame_unregister: "tableFrame g g1 \<Longrightarrow> tableFrame g (unregister a g1)"
  unfolding tableFrame_def
  using snd_set_delete [of "sessionId (objs g1 ! a)" "sessions g1"]
  by (simp only: sessions_effects objs_effects) blast

lemma frame_unregister [simp]: "frame P N E g g1 \<Longrightarrow> frame P N E g (unregister a g1)"
  by (simp add: frame_def tableFrame_unregister)

lemma tableFrame_objs:
  "sessions g2 = sessions g1 \<Longrightarrow> length (objs g2) = length (objs g1)
   \<Longrightarrow> tableFrame g g1 \<Longrightarrow> tableFrame g g2"
  by (simp add: tableFrame_def)

lemma frame_modify:
  assumes "frame P N E g g1"
    and "\<And>s s1. P s s1 \<Longrightarrow> P s (f s1)"
    and "\<And>s. N s \<Longrightarrow> N (f s)"
  shows "frame P N E g (modify a f g1)"
proof -
  have "if b < length (objs g) then P (objs g ! b) ((objs g1)[a := f (objs g1 ! a)] ! b)
        else N ((objs g1)[a := f (objs g1 ! a)] ! b)"
    if "b < length (objs g1)" for b
  proof -
    from assms(1) that
    have h: "if b < length (objs g) then P (objs g ! b) (objs g1 ! b) else N (objs g1 ! b)"
      by (simp add: frame_def)
    show ?thesis
    proof (cases "a = b")
      case True
      with h that show ?thesis
        by (auto simp: assms(2) assms(3) split: if_splits)
    next
      case False
      with h show ?thesis
        by (simp add: nth_list_update_if)
    qed
  qed
  moreover have "tableFrame g (modify a f g1)"
    using assms(1) by (auto simp: frame_def intro: tableFrame_objs)
  ultimately show ?thesis
    using assms(1) by (simp add: frame_def)
qed

lemma frame_wsClose [simp]:
  "frame P N E g g1 \<Longrightarrow> plain P N \<Longrightarrow> frame P N E g (wsClose a g1)"
  unfolding wsClose_def
  by (rule frame_modify) (simp_all add: plain_def)

lemma tableFrame_register:
  assumes "tableFrame g g1" and "length (objs g) \<le> length (objs g1)"
  shows "tableFrame g (g1\<lparr>objs := objs g1 @ [s],
                           sessions := AList.update i (length (objs g1)) (sessions g1)\<rparr>)"
proof -
  have "a \<in> snd ` set (sessions g) \<or> (length (objs g) \<le> a \<and> a < Suc (length (objs g1)))"
    if "a \<in> snd ` set (AList.update i (length (objs g1)) (sessions g1))" for a
  proof -
    from that snd_set_update [of i "length (objs g1)" "sessions g1"]
    have "a = length (objs g1) \<or> a \<in> snd ` set (sessions g1)"
      by blast
    then show ?thesis
    proof
      assume "a = length (objs g1)"
      with assms(2) show ?thesis by simp
    next
      assume "a \<in> snd ` set (sessions g1)"
      with assms(1) have "a \<in> snd ` set (sessions g) \<or> (length (objs g) \<le> a \<and> a < length (objs g1))"
        unfolding tableFrame_def by blast
      then show ?thesis by auto
    qed
  qed
  then show ?thesis
    unfolding tableFrame_def by simp
qed

lemma frame_register:
  assumes "frame P N E g g1" and "N s"
  shows "frame P N E g (g1\<lparr>objs := objs g1 @ [s],
                            sessions := AList.update i (length (objs g1)) (sessions g1)\<rparr>)"
proof -
  from assms(1) have t: "tableFrame g g1" and l: "length (objs g) \<le> length (objs g1)"
    by (simp_all add: frame_def)
  have "tableFrame g (g1\<lparr>objs := objs g1 @ [s],
                           sessions := AList.update i (length (objs g1)) (sessions g1)\<rparr>)"
    using t l by (rule tableFrame_register)
  moreover have "if b < length (objs g) then P (objs g ! b) ((objs g1 @ [s]) ! b)
        else N ((objs g1 @ [s]) ! b)" if "b < Suc (length (objs g1))" for b
    using assms that l by (auto simp: frame_def nth_append less_Suc_eq split: if_splits)
  ultimately show ?thesis
    using assms(1) by (simp add: frame_def)
qed

lemma frame_spawned: "frame P N E g g1 \<Longrightarrow> frame P N E g (g1\<lparr>spawned := x\<rparr>)"
  by (simp add: frame_def tableFrame_def)

subsubsection \<open>The blocks of the handlers\<close>

lemma frame_blocks [simp]:
  "frame P N E g g1 \<Longrightarrow> plain P N \<Longrightarrow> frame P N E g (clearHelloTimer a g1)"
  "frame P N E g g1 \<Longrightarrow> plain P N \<Longrightarrow> frame P N E g (killFfmpeg a g1)"
  "frame P N E g g1 \<Longrightarrow> plain P N \<Longrightarrow> frame P N E g (destroyProxySock a g1)"
  "frame P N E g g1 \<Longrightarrow> plain P N \<Longrightarrow> frame P N E g (releaseIfOwner a g1)"
  "frame P N E g g1 \<Longrightarrow> plain P N \<Longrightarrow> frame P N E g (captureOnceEnd a g1)"
  "frame P N E g g1 \<Longrightarrow> plain P N \<Longrightarrow> frame P N E g (spawnFfmpeg a pr f g1)"
  by (simp_all add: clearHelloTimer_def killFfmpeg_def destroyProxySock_def releaseIfOwner_def
      captureOnceEnd_def spawnFfmpeg_def Let_def frame_modify plain_def frame_spawned
      split: option.splits)


subsubsection \<open>The handlers\<close>

lemma frame_cleanup [simp]:
  "frame P N E g g1 \<Longrightarrow> plain P N \<Longrightarrow> frame P N E g (cleanup a g1)"
  by (simp add: cleanup_def frame_modify plain_def)

lemma frame_captureFailed [simp]:
  "frame P N E g g1 \<Longrightarrow> plain P N \<Longrightarrow> (\<And>f. E (Failed f))
   \<Longrightarrow> frame P N E g (captureFailed a m g1)"
  by (simp add: captureFailed_def Let_def)

lemma frame_handlers [simp]:
  "frame P N E g g1 \<Longrightarrow> plain P N \<Longrightarrow> frame P N E g (onWsClose a g1)"
  "frame P N E g g1 \<Longrightarrow> plain P N \<Longrightarrow> frame P N E g (onWsError a g1)"
  "frame P N E g g1 \<Longrightarrow> plain P N \<Longrightarrow> frame P N E g (onHello a m now g1)"
  "frame P N E g g1 \<Longrightarrow> plain P N \<Longrightarrow> frame P N E g (onAuth a m g1)"
  "frame P N E g g1 \<Longrightarrow> plain P N \<Longrightarrow> frame P N E g (onBinary a bs g1)"
  "frame P N E g g1 \<Longrightarrow> plain P N \<Longrightarrow> frame P N E g (helloTimeout a g1)"
  "frame P N E g g1 \<Longrightarrow> plain P N \<Longrightarrow> frame P N E g (onSockData a bs g1)"
  "frame P N E g g1 \<Longrightarrow> plain P N \<Longrightarrow> frame P N E g (proxyCleanup a k g1)"
  by (simp_all add: onWsClose_def onWsError_def onHello_def onAuth_def onBinary_def
      helloTimeout_def onSockData_def proxyCleanup_def Let_def frame_modify plain_def
      split: option.splits list.splits prod.splits)

lemma frame_onText [simp]:
  "frame P N E g g1 \<Longrightarrow> plain P N \<Longrightarrow> frame P N E g (onText a d now g1)"
  by (simp add: onText_def Let_def)

lemma frame_start [simp]: "frame P N E g g1 \<Longrightarrow> frame P N E g (start g1)"
  by (simp add: start_def frame_def tableFrame_def)

lemma frame_ffmpegClosed [simp]:
  "frame P N E g g1 \<Longrightarrow> plain P N \<Longrightarrow> (\<And>f. E (Failed f)) \<Longrightarrow> (\<And>c. E (Captured c))
   \<Longrightarrow> frame P N E g (ffmpegClosed a f c fl t g1)"
  by (simp add: ffmpegClosed_def Let_def)

lemma frame_helloResumed [simp]:
  "frame P N E g g1 \<Longrightarrow> plain P N \<Longrightarrow> authing P N
   \<Longrightarrow> frame P N E g (helloResumed cfg a r n g1)"
  by (simp add: helloResumed_def Let_def frame_modify plain_def authing_def split: sum.splits)

lemma frame_authResumed [simp]:
  "frame P N E g g1 \<Longrightarrow> plain P N \<Longrightarrow> authing P N
   \<Longrightarrow> frame P N E g (authResumed cfg a r g1)"
  by (simp add: authResumed_def Let_def frame_modify authing_def split: sum.splits)

lemma frame_onProxyConnection [simp]:
  "frame P N E g g1 \<Longrightarrow> plain P N \<Longrightarrow> binding P N
   \<Longrightarrow> frame P N E g (onProxyConnection g1)"
  by (simp add: onProxyConnection_def Let_def frame_modify binding_def split: option.splits)

lemma frame_onConnection [simp]:
  "frame P N E g g1 \<Longrightarrow> plain P N \<Longrightarrow> frame P N E g (onConnection i r g1)"
  by (simp add: onConnection_def Let_def frame_modify frame_register plain_def)

lemma frame_captureOnceBegin:
  assumes "frame P N E g g1" and "plain P N"
  shows "captureOnceBegin cfg a pr t mk g1 = Inl (e, g2) \<Longrightarrow> frame P N E g g2"
    and "captureOnceBegin cfg a pr t mk g1 = Inr g3 \<Longrightarrow> frame P N E g g3"
  using assms
  by (auto simp: captureOnceBegin_def Let_def frame_modify plain_def split: option.splits)

lemma frame_paramsResolved [simp]:
  assumes "frame P N E g g1" and "plain P N" and "\<And>f. E (Failed f)"
  shows "frame P N E g (paramsResolved cfg a r t mk g1)"
proof (cases r)
  case (Inl e)
  with assms show ?thesis by (simp add: paramsResolved_def)
next
  case (Inr sm)
  show ?thesis
  proof (cases "buildTunnelParams cfg (pullCameraProfile sm)")
    case (Inl e)
    with Inr assms show ?thesis by (simp add: paramsResolved_def)
  next
    case pr: (Inr params)
    show ?thesis
    proof (cases "captureOnceBegin cfg a params t mk g1")
      case (Inl x)
      obtain e g2 where x: "x = (e, g2)" by (cases x)
      with Inl have "frame P N E g g2"
        using frame_captureOnceBegin(1) [OF assms(1) assms(2)] by blast
      with Inl x Inr pr assms show ?thesis by (simp add: paramsResolved_def)
    next
      case c: (Inr g3)
      then have "frame P N E g g3"
        using frame_captureOnceBegin(2) [OF assms(1) assms(2)] by blast
      with c Inr pr show ?thesis by (simp add: paramsResolved_def)
    qed
  qed
qed

lemma frame_fold_cleanup:
  "frame P N E g g1 \<Longrightarrow> plain P N \<Longrightarrow> frame P N E g (fold cleanup as g1)"
  by (induction as arbitrary: g1) simp_all

lemma frame_stop [simp]:
  assumes "frame P N E g g1" and "plain P N"
  shows "frame P N E g (stop g1)"
proof (cases "started g1")
  case False
  with assms show ?thesis by (simp add: stop_def)
next
  case True
  from assms(1) have "frame P N E g (g1\<lparr>started := False\<rparr>)"
    by (simp add: frame_def tableFrame_def)
  then have "frame P N E g (fold cleanup (map snd (sessions g1)) (g1\<lparr>started := False\<rparr>))"
    using assms(2) by (rule frame_fold_cleanup)
  then have "frame P N E g ((fold cleanup (map snd (sessions g1)) (g1\<lparr>started := False\<rparr>))\<lparr>sessions := []\<rparr>)"
    by (simp add: frame_def tableFrame_def)
  with True show ?thesis
    by (simp add: stop_def)
qed

lemma frame_stopEnd [simp]:
  "frame P N E g g1 \<Longrightarrow> frame P N E g (stopEnd g1)"
  by (simp add: stopEnd_def)

text \<open>
  Every turn is framed: \<open>P\<close> and \<open>N\<close> must survive the authentication only for the two
  continuations that set \<open>authed\<close>, and a binding only for an accepted connection; \<open>E\<close>
  must allow a captured event only when ffmpeg has closed.
\<close>

definition setsAuthed :: "input \<Rightarrow> bool" where
  "setsAuthed i = (case i of TzResolved a r n \<Rightarrow> True | VerifyResolved a r \<Rightarrow> True | _ \<Rightarrow> False)"

definition isFfmpegClosed :: "input \<Rightarrow> bool" where
  "isFfmpegClosed i = (case i of FfmpegClosed a p f c fl t \<Rightarrow> True | _ \<Rightarrow> False)"

lemma frame_step:
  assumes "step cfg i g = Some g1" and "plain P N"
    and "setsAuthed i \<Longrightarrow> authing P N"
    and "i = ProxyConnection \<Longrightarrow> binding P N"
    and "\<And>f. E (Failed f)"
    and "\<And>c. isFfmpegClosed i \<Longrightarrow> E (Captured c)"
  shows "frame P N E g g1"
proof -
  have r: "frame P N E g g"
    using assms(2) by simp
  show ?thesis
  proof (cases i)
    case (TzResolved a r0 n)
    with assms(1,2,3) r show ?thesis
      by (auto simp: setsAuthed_def split: if_splits)
  next
    case (VerifyResolved a r0)
    with assms(1,2,3) r show ?thesis
      by (auto simp: setsAuthed_def split: if_splits)
  next
    case ProxyConnection
    with assms(1,2,4) r show ?thesis
      by (auto split: if_splits)
  next
    case (FfmpegClosed a p f c fl t)
    with assms(1,2,5,6) r show ?thesis
      by (auto simp: isFfmpegClosed_def split: if_splits)
  next
    case (ParamsResolved a r0 t mk)
    with assms(1,2,5) r show ?thesis
      by (auto split: if_splits)
  qed (use assms(1,2) r in \<open>auto split: if_splits\<close>)
qed


definition demoCfg :: config where
  "demoCfg =
     \<lparr>camUser = js ''admin'', camPass = js ''PASS'', rtspPath = js ''/stream2'',
      outDir = js ''/tmp'', autoCapture = True, requireAuth = False,
      pathJoin = (\<lambda>a b. a @ js ''/'' @ b), strToNum = (\<lambda>s. NaN)\<rparr>"

definition demoMeta :: sensorMeta where
  "demoMeta = [(js ''cam'', Some [(js ''RTSP_PATH'', js ''/stream1'')])]"

definition raceTrace :: "input list" where
  "raceTrace =
     [Start,
      Connection (js ''A'') (js ''10.0.0.1''),
      Connection (js ''B'') (js ''10.0.0.2''),
      TextMessage 0 (js ''HELLO devA'') 0,
      TzResolved 0 (Inr JNull) (js ''nA''),
      TextMessage 1 (js ''HELLO devB'') 0,
      TzResolved 1 (Inr JNull) (js ''nB''),
      ParamsResolved 0 (Inr demoMeta) (js ''t1'') None,
      WsClose 0,
      ParamsResolved 1 (Inr demoMeta) (js ''t2'') None,
      FfmpegClosed 0 0 (js ''/tmp/devA/snap-t1.jpg'') None None (js ''t3''),
      Connection (js ''C'') (js ''10.0.0.3''),
      TextMessage 2 (js ''HELLO devC'') 0,
      TzResolved 2 (Inr JNull) (js ''nC''),
      ParamsResolved 2 (Inr demoMeta) (js ''t4'') None]"

lemmas eval_defs =
  effect_defs modify_def wsClose_def isWsOpen_def newSession_def onConnection_def
  clearHelloTimer_def killFfmpeg_def destroyProxySock_def releaseIfOwner_def cleanup_def
  onWsClose_def onWsError_def orElse_def nullProfileMessage_def buildTunnelParams_def
  mkOutFile_def captureGuard_def spawnFfmpeg_def captureOnceBegin_def failedEvent_def
  captureFailed_def maybeAutoCapture_def paramsResolved_def capturedEvent_def
  captureOnceEnd_def ffmpegClosed_def onHello_def onAuth_def onText_def helloResumed_def
  authResumed_def onBinary_def helloTimeout_def capturingSession_def onProxyConnection_def
  onSockData_def proxyCleanup_def start_def stop_def stopEnd_def live_def awaited_def initial_def
  parseHello_def split_ws_def trim_def toUpperCase_def startsWith_def isWhiteSpace_def
  safeDeviceId_def isIdChar_def js_def sanitizeTzOffsetHours_def toNumber_def
  Let_def


subsection \<open>Reachable states\<close>

lemma run_reachable:
  "reachable cfg g \<Longrightarrow> run cfg inputs g = Some g1 \<Longrightarrow> reachable cfg g1"
proof (induction inputs arbitrary: g)
  case Nil
  then show ?case by simp
next
  case (Cons i inputs)
  then show ?case
    by (auto split: option.splits intro: reachable_step)
qed

lemma plain_trivial: "plain (\<lambda>s s1. True) (\<lambda>s. True)"
  by (simp add: plain_def)

lemma plain_sock: "plain sockKept noSock"
  by (simp add: plain_def sockKept_def noSock_def newSession_def)

lemma authing_sock: "authing sockKept noSock"
  by (simp add: authing_def sockKept_def noSock_def)

lemma plain_auth: "plain authKept notAuthed"
  by (simp add: plain_def authKept_def notAuthed_def newSession_def)

lemma binding_auth: "binding authKept notAuthed"
  by (simp add: binding_def authKept_def notAuthed_def)





text \<open>
  A bound socket has been allocated, and no two session objects hold the same socket.
\<close>

definition sockInv :: "gateway \<Rightarrow> bool" where
  "sockInv g =
     ((\<forall>a < length (objs g). \<forall>k. proxySock (objs g ! a) = Some k \<longrightarrow> k < nextSock g)
      \<and> (\<forall>a < length (objs g). \<forall>b < length (objs g). \<forall>k.
            proxySock (objs g ! a) = Some k \<and> proxySock (objs g ! b) = Some k \<longrightarrow> a = b))"

lemma sockKept_old:
  assumes "frame sockKept noSock E g g1" and "a < length (objs g1)"
    and "proxySock (objs g1 ! a) = Some k"
  shows "a < length (objs g) \<and> proxySock (objs g ! a) = Some k"
proof -
  from assms(1,2)
  have "if a < length (objs g) then sockKept (objs g ! a) (objs g1 ! a) else noSock (objs g1 ! a)"
    by (simp add: frame_def)
  with assms(3) show ?thesis
    by (auto simp: sockKept_def noSock_def split: if_splits)
qed

lemma sockInv_frame:
  assumes "sockInv g" and "frame sockKept noSock E g g1"
  shows "sockInv g1"
proof -
  from assms(2) have n: "nextSock g \<le> nextSock g1"
    by (simp add: frame_def)
  have "k < nextSock g1" if "a < length (objs g1)" "proxySock (objs g1 ! a) = Some k" for a k
  proof -
    from sockKept_old [OF assms(2) that]
    have "a < length (objs g)" "proxySock (objs g ! a) = Some k" by simp_all
    with assms(1) have "k < nextSock g"
      by (simp add: sockInv_def)
    with n show ?thesis by simp
  qed
  moreover have "a = b"
    if "a < length (objs g1)" "b < length (objs g1)"
      "proxySock (objs g1 ! a) = Some k" "proxySock (objs g1 ! b) = Some k" for a b k
  proof -
    from sockKept_old [OF assms(2) that(1) that(3)] sockKept_old [OF assms(2) that(2) that(4)]
    have "a < length (objs g)" "proxySock (objs g ! a) = Some k"
      "b < length (objs g)" "proxySock (objs g ! b) = Some k" by simp_all
    with assms(1) show ?thesis
      unfolding sockInv_def by blast
  qed
  ultimately show ?thesis
    unfolding sockInv_def by blast
qed

text \<open>What an accepted connection does to the sessions.\<close>

lemma capturingSession_accept [simp]: "capturingSession (accept g) = capturingSession g"
  by (simp add: capturingSession_def accept_def split: option.splits)

lemma capturingSession_nextSock [simp]:
  "capturingSession (g\<lparr>nextSock := n\<rparr>) = capturingSession g"
  by (simp add: capturingSession_def split: option.splits)

lemma onProxyConnection_objs:
  "objs (onProxyConnection g) =
     (case capturingSession g of
        None \<Rightarrow> objs g
      | Some a \<Rightarrow>
          if captureActive (objs g ! a) \<and> isWsOpen (objs g ! a)
          then (objs g)[a := (objs g ! a)\<lparr>proxySock := Some (nextSock g)\<rparr>]
          else objs g)"
  by (simp add: onProxyConnection_def Let_def split: option.splits)

lemma onProxyConnection_nextSock [simp]: "nextSock (onProxyConnection g) = Suc (nextSock g)"
  by (simp add: onProxyConnection_def Let_def split: option.splits)

lemma sockInv_onProxyConnection:
  assumes "sockInv g"
  shows "sockInv (onProxyConnection g)"
proof (cases "\<exists>a. capturingSession g = Some a \<and> captureActive (objs g ! a) \<and> isWsOpen (objs g ! a)")
  case False
  then have "objs (onProxyConnection g) = objs g"
    by (auto simp: onProxyConnection_objs split: option.splits)
  with assms show ?thesis
    by (auto simp: sockInv_def less_Suc_eq)
next
  case True
  then obtain a where a: "capturingSession g = Some a" "captureActive (objs g ! a)"
    "isWsOpen (objs g ! a)" by blast
  then have o: "objs (onProxyConnection g) = (objs g)[a := (objs g ! a)\<lparr>proxySock := Some (nextSock g)\<rparr>]"
    by (simp add: onProxyConnection_objs)
  from assms have f: "\<And>b k. b < length (objs g) \<Longrightarrow> proxySock (objs g ! b) = Some k \<Longrightarrow> k < nextSock g"
    and u: "\<And>b c k. b < length (objs g) \<Longrightarrow> c < length (objs g) \<Longrightarrow> proxySock (objs g ! b) = Some k
               \<Longrightarrow> proxySock (objs g ! c) = Some k \<Longrightarrow> b = c"
    unfolding sockInv_def by blast+
  show ?thesis
    unfolding sockInv_def o onProxyConnection_nextSock
  proof (intro conjI allI impI)
    fix b k
    assume "b < length ((objs g)[a := (objs g ! a)\<lparr>proxySock := Some (nextSock g)\<rparr>])"
      and "proxySock ((objs g)[a := (objs g ! a)\<lparr>proxySock := Some (nextSock g)\<rparr>] ! b) = Some k"
    then show "k < Suc (nextSock g)"
      using f [of b k] by (auto simp: nth_list_update_if less_Suc_eq split: if_splits)
  next
    fix b c k
    assume "b < length ((objs g)[a := (objs g ! a)\<lparr>proxySock := Some (nextSock g)\<rparr>])"
      and "c < length ((objs g)[a := (objs g ! a)\<lparr>proxySock := Some (nextSock g)\<rparr>])"
      and "proxySock ((objs g)[a := (objs g ! a)\<lparr>proxySock := Some (nextSock g)\<rparr>] ! b) = Some k
           \<and> proxySock ((objs g)[a := (objs g ! a)\<lparr>proxySock := Some (nextSock g)\<rparr>] ! c) = Some k"
    then show "b = c"
      using f [of b k] f [of c k] u [of b c k]
      by (auto simp: nth_list_update_if split: if_splits)
  qed
qed

lemma sockInv_step:
  assumes "sockInv g" and "step cfg i g = Some g1"
  shows "sockInv g1"
proof (cases "i = ProxyConnection")
  case True
  with assms show ?thesis
    by (auto simp: sockInv_onProxyConnection split: if_splits)
next
  case False
  have "frame sockKept noSock (\<lambda>e. True) g g1"
    using assms(2) plain_sock by (rule frame_step) (simp_all add: authing_sock False)
  with assms(1) show ?thesis
    by (rule sockInv_frame)
qed

lemma reachable_sockInv: "reachable cfg g \<Longrightarrow> sockInv g"
proof (induction rule: reachable.induct)
  case reachable_initial
  show ?case by (simp add: sockInv_def initial_def)
next
  case (reachable_step g i g1)
  then show ?case by (simp add: sockInv_step)
qed


subsection \<open>The bound socket\<close>

definition after :: "config \<Rightarrow> input list \<Rightarrow> gateway" where
  "after cfg inputs = (case run cfg inputs initial of Some g \<Rightarrow> g | None \<Rightarrow> initial)"

lemma reachable_after: "run cfg inputs initial \<noteq> None \<Longrightarrow> reachable cfg (after cfg inputs)"
  using run_reachable [OF reachable_initial, of cfg inputs]
  by (auto simp: after_def)

lemma new_binding_only_on_accept:
  assumes "step cfg i g = Some g1" and "a < length (objs g1)"
    and "proxySock (objs g1 ! a) = Some k"
    and "\<not> (a < length (objs g) \<and> proxySock (objs g ! a) = Some k)"
  shows "i = ProxyConnection \<and> k = nextSock g \<and> capturingSession g = Some a
         \<and> captureActive (objs g ! a) \<and> isWsOpen (objs g ! a)"
proof (cases "i = ProxyConnection")
  case False
  have "frame sockKept noSock (\<lambda>e. True) g g1"
    using assms(1) plain_sock by (rule frame_step) (simp_all add: authing_sock False)
  from sockKept_old [OF this assms(2) assms(3)] assms(4) show ?thesis
    by simp
next
  case True
  with assms(1) have g1: "g1 = onProxyConnection g"
    by (auto split: if_splits)
  show ?thesis
  proof (cases "capturingSession g")
    case None
    with g1 assms(2,3,4) show ?thesis
      by (simp add: onProxyConnection_objs)
  next
    case (Some b)
    with g1 assms(2,3,4) True show ?thesis
      by (auto simp: onProxyConnection_objs nth_list_update_if split: if_splits)
  qed
qed

lemma objs_releaseIfOwner [simp]: "objs (releaseIfOwner a g) = objs g"
  by (simp add: releaseIfOwner_def)

lemma destroyProxySock_clears:
  "a < length (objs g) \<Longrightarrow> proxySock (objs (destroyProxySock a g) ! a) = None"
  by (simp add: destroyProxySock_def split: option.splits)

lemma cleanup_clears:
  assumes "a < length (objs g)" and "\<not> sessionClosed (objs g ! a)"
  shows "proxySock (objs (cleanup a g) ! a) = None"
proof -
  let ?G = "killFfmpeg a (clearHelloTimer a (modify a (\<lambda>s. s\<lparr>sessionClosed := True\<rparr>) g))"
  have "frame (\<lambda>s s1. True) (\<lambda>s. True) (\<lambda>e. True) g ?G"
    by (simp add: plain_trivial frame_modify)
  then have "length (objs g) \<le> length (objs ?G)"
    by (simp add: frame_def)
  with assms(1) have "a < length (objs ?G)"
    by simp
  then have "proxySock (objs (destroyProxySock a ?G) ! a) = None"
    by (rule destroyProxySock_clears)
  with assms(2) show ?thesis
    by (simp add: cleanup_def)
qed

lemma proxyCleanup_unbinds:
  "a < length (objs g) \<Longrightarrow> proxySock (objs (proxyCleanup a k g) ! a) \<noteq> Some k"
  by (simp add: proxyCleanup_def Let_def)

lemma ffmpegClosed_keeps_sock:
  "proxySock (objs (ffmpegClosed a f c fl t g) ! b) = proxySock (objs g ! b)"
  by (simp add: ffmpegClosed_def captureOnceEnd_def captureFailed_def Let_def nth_list_update_if)

definition captureTrace :: "input list" where
  "captureTrace =
     [Start,
      Connection (js ''A'') (js ''10.0.0.1''),
      TextMessage 0 (js ''HELLO devA'') 0,
      TzResolved 0 (Inr JNull) (js ''nA''),
      ParamsResolved 0 (Inr demoMeta) (js ''t1'') None]"

text \<open>ffmpeg connects to the proxy, writes its file and exits before its socket is closed.\<close>

definition exitBeforeSocketClose :: "input list" where
  "exitBeforeSocketClose =
     captureTrace @
     [ProxyConnection,
      FfmpegClosed 0 0 (js ''/tmp/devA/snap-t1.jpg'') (Some 0) (Some 1024) (js ''t2'')]"

text \<open>
  Claim C7 as stated fails: when ffmpeg has exited, \<open>captureActive\<close> is false, and the
  session still holds the socket until the socket's own \<open>close\<close> arrives.
\<close>

theorem proxySock_outlives_capture:
  "run demoCfg exitBeforeSocketClose initial \<noteq> None
   \<and> captureActive (objs (after demoCfg exitBeforeSocketClose) ! 0) = False
   \<and> proxySock (objs (after demoCfg exitBeforeSocketClose) ! 0) = Some 0"
  by (simp add: after_def exitBeforeSocketClose_def captureTrace_def demoCfg_def demoMeta_def
      eval_defs)

text \<open>
  Claim C7, amended. In every reachable state a bound \<open>proxySock\<close> belongs to one
  session only. A socket becomes bound only when a loopback connection is accepted, and
  then to the session that holds the capture slot, has \<open>captureActive\<close> set and an
  open WebSocket. The session gives the socket up when the session is cleaned up or when
  the socket closes or fails; the end of the capture, which clears \<open>captureActive\<close>,
  leaves it bound.
\<close>

theorem proxySock_binding:
  "(reachable cfg g \<longrightarrow>
      (\<forall>a < length (objs g). \<forall>b < length (objs g). \<forall>k.
         proxySock (objs g ! a) = Some k \<and> proxySock (objs g ! b) = Some k \<longrightarrow> a = b))
   \<and> (step cfg i g = Some g1 \<and> a < length (objs g1) \<and> proxySock (objs g1 ! a) = Some k
       \<and> \<not> (a < length (objs g) \<and> proxySock (objs g ! a) = Some k) \<longrightarrow>
         i = ProxyConnection \<and> k = nextSock g \<and> capturingSession g = Some a
         \<and> captureActive (objs g ! a) \<and> isWsOpen (objs g ! a))
   \<and> (a < length (objs g) \<and> \<not> sessionClosed (objs g ! a) \<longrightarrow>
         proxySock (objs (cleanup a g) ! a) = None)
   \<and> (a < length (objs g) \<longrightarrow> proxySock (objs (proxyCleanup a k g) ! a) \<noteq> Some k)
   \<and> proxySock (objs (ffmpegClosed a f c fl t g) ! a) = proxySock (objs g ! a)"
proof (intro conjI impI)
  assume "reachable cfg g"
  then have "sockInv g"
    by (rule reachable_sockInv)
  then show "\<forall>a < length (objs g). \<forall>b < length (objs g). \<forall>k.
         proxySock (objs g ! a) = Some k \<and> proxySock (objs g ! b) = Some k \<longrightarrow> a = b"
    by (simp add: sockInv_def)
next
  assume h: "step cfg i g = Some g1 \<and> a < length (objs g1) \<and> proxySock (objs g1 ! a) = Some k
       \<and> \<not> (a < length (objs g) \<and> proxySock (objs g ! a) = Some k)"
  then have s: "i = ProxyConnection \<and> k = nextSock g \<and> capturingSession g = Some a
         \<and> captureActive (objs g ! a) \<and> isWsOpen (objs g ! a)"
    using new_binding_only_on_accept [of cfg i g g1 a k] by blast
  from s show "i = ProxyConnection" by simp
  from s show "k = nextSock g" by simp
  from s show "capturingSession g = Some a" by simp
  from s show "captureActive (objs g ! a)" by simp
  from s show "isWsOpen (objs g ! a)" by simp
next
  assume "a < length (objs g) \<and> \<not> sessionClosed (objs g ! a)"
  then show "proxySock (objs (cleanup a g) ! a) = None"
    by (simp add: cleanup_clears)
next
  assume "a < length (objs g)"
  then show "proxySock (objs (proxyCleanup a k g) ! a) \<noteq> Some k"
    by (rule proxyCleanup_unbinds)
next
  show "proxySock (objs (ffmpegClosed a f c fl t g) ! a) = proxySock (objs g ! a)"
    by (rule ffmpegClosed_keeps_sock)
qed


text \<open>The state in which session 0 holds the capture slot and ffmpeg has been spawned.\<close>

lemma capturing_state:
  "run demoCfg captureTrace initial \<noteq> None"
  "objs (after demoCfg captureTrace) =
     [\<lparr>sessionId = js ''A'', ws = OPEN, remote = js ''10.0.0.1'', deviceId = js ''devA'',
       helloAt = Some 0, payloadId = None, nonceB64 = Some (js ''nA''), authed = True,
       captureActive = True, proxySock = None, ffmpeg = Some 0,
       tzOffsetHours = Some (Finite 0), helloTimer = True, sessionClosed = False\<rparr>]"
  "sessions (after demoCfg captureTrace) = [(js ''A'', 0)]"
  "globalCaptureInFlight (after demoCfg captureTrace)"
  "globalCaptureSessionId (after demoCfg captureTrace) = Some (js ''A'')"
  "started (after demoCfg captureTrace)"
  "nextSock (after demoCfg captureTrace) = 0"
  "destroyed (after demoCfg captureTrace) = []"
  "pending (after demoCfg captureTrace)
     = [HelloTimer 0, AwaitFfmpeg 0 0 (js ''/tmp/devA/snap-t1.jpg'')]"
  by (simp_all add: after_def captureTrace_def demoCfg_def demoMeta_def eval_defs)

theorem proxySock_binding_witness:
  "capturingSession (after demoCfg captureTrace) = Some 0
   \<and> captureActive (objs (after demoCfg captureTrace) ! 0)
   \<and> isWsOpen (objs (after demoCfg captureTrace) ! 0)
   \<and> proxySock (objs (onProxyConnection (after demoCfg captureTrace)) ! 0) = Some 0
   \<and> proxySock (objs (cleanup 0 (after demoCfg captureTrace)) ! 0) = None
   \<and> proxySock (objs (proxyCleanup 0 0 (onProxyConnection (after demoCfg captureTrace))) ! 0)
       \<noteq> Some 0
   \<and> proxySock (objs (ffmpegClosed 0 (js ''f'') (Some 0) (Some 1)  (js ''t'')
         (onProxyConnection (after demoCfg captureTrace))) ! 0) = Some 0"
proof -
  let ?g = "after demoCfg captureTrace"
  let ?g1 = "onProxyConnection ?g"
  have r: "reachable demoCfg ?g"
    by (rule reachable_after) (rule capturing_state(1))
  have c: "capturingSession ?g = Some 0"
    by (simp add: capturingSession_def capturing_state js_def)
  have st: "step demoCfg ProxyConnection ?g = Some ?g1"
    by (simp add: capturing_state)
  have o: "objs ?g1 = [(objs ?g ! 0)\<lparr>proxySock := Some 0\<rparr>]"
    by (simp add: onProxyConnection_objs c capturing_state isWsOpen_def)
  have b: "0 < length (objs ?g1) \<and> proxySock (objs ?g1 ! 0) = Some 0
           \<and> \<not> (0 < length (objs ?g) \<and> proxySock (objs ?g ! 0) = Some 0)"
    by (simp add: o) (simp add: capturing_state)
  have l: "0 < length (objs ?g) \<and> \<not> sessionClosed (objs ?g ! 0)"
    by (simp add: capturing_state)
  have l1: "0 < length (objs ?g1)"
    by (simp add: o)
  show ?thesis
    using proxySock_binding [of demoCfg ?g ProxyConnection ?g1 0 0 "js ''f''" "Some 0" "Some 1" "js ''t''"]
      proxySock_binding [of demoCfg ?g1 ProxyConnection ?g1 0 0 "js ''f''" "Some 0" "Some 1" "js ''t''"]
      r st b l l1
    by simp
qed

subsection \<open>Accepting a loopback connection\<close>









subsection \<open>The \<open>authed\<close> flag\<close>

lemma authed_helloResumed:
  "authed (objs (helloResumed cfg a r n g) ! b) =
     (case r of
        Inl e \<Rightarrow> authed (objs g ! b)
      | Inr v \<Rightarrow> if a = b \<and> a < length (objs g) \<and> \<not> requireAuth cfg then True
                 else authed (objs g ! b))"
  by (auto simp: helloResumed_def Let_def nth_list_update_if split: sum.splits)

lemma authed_authResumed:
  "authed (objs (authResumed cfg a r g) ! b) =
     (case r of
        Inl e \<Rightarrow> authed (objs g ! b)
      | Inr ok \<Rightarrow> if a = b \<and> a < length (objs g) then ok else authed (objs g ! b))"
  by (auto simp: authResumed_def Let_def nth_list_update_if split: sum.splits)

lemma ws_authResumed_failed:
  "ws (objs (authResumed cfg a (Inr False) g) ! b) =
     (if a = b \<and> a < length (objs g) \<and> requireAuth cfg \<and> ws (objs g ! b) = OPEN then CLOSING
      else ws (objs g ! b))"
  by (auto simp: authResumed_def Let_def nth_list_update_if)

lemma authed_other_steps:
  assumes "step cfg i g = Some g1" and "\<not> setsAuthed i" and "b < length (objs g)"
  shows "authed (objs g1 ! b) = authed (objs g ! b)"
proof -
  have "frame authKept notAuthed (\<lambda>e. True) g g1"
    using assms(1) plain_auth by (rule frame_step) (simp_all add: assms(2) binding_auth)
  with assms(3) show ?thesis
    by (auto simp: frame_def authKept_def split: if_splits)
qed

text \<open>A device says HELLO, is authenticated at once, and then sends a bad signature.\<close>

definition badAuthTrace :: "input list" where
  "badAuthTrace =
     [Start,
      Connection (js ''A'') (js ''10.0.0.1''),
      TextMessage 0 (js ''HELLO devA'') 0,
      TzResolved 0 (Inr JNull) (js ''nA''),
      TextMessage 0 (js ''AUTH devA AAAA'') 1,
      VerifyResolved 0 (Inr False)]"

text \<open>
  Claim C3 as stated fails: with \<open>REQUIRE_AUTH\<close> off the session is authed from HELLO,
  and an AUTH with a bad signature takes \<open>authed\<close> back to false while the session
  stays open.
\<close>

theorem bad_auth_reverts_authed:
  "requireAuth demoCfg = False
   \<and> run demoCfg badAuthTrace initial \<noteq> None
   \<and> authed (objs (after demoCfg (take 4 badAuthTrace)) ! 0) = True
   \<and> authed (objs (after demoCfg badAuthTrace) ! 0) = False
   \<and> ws (objs (after demoCfg badAuthTrace) ! 0) = OPEN
   \<and> sessionClosed (objs (after demoCfg badAuthTrace) ! 0) = False
   \<and> sessions (after demoCfg badAuthTrace) = [(js ''A'', 0)]"
  by (simp add: after_def badAuthTrace_def demoCfg_def eval_defs)

text \<open>
  Claim C3, amended. The \<open>authed\<close> flag of a session changes in two places only. When
  the HELLO handler resumes and \<open>REQUIRE_AUTH\<close> is off, it is set to true. When the
  AUTH handler resumes with the outcome of the verification, it is set to that outcome:
  true for a good signature, false for a bad one, also when it was true before; the
  session is then closed only when \<open>REQUIRE_AUTH\<close> is on. No other turn changes it.
\<close>

theorem authed_transitions:
  assumes "step cfg i g = Some g1" and "b < length (objs g)"
  shows "authed (objs g1 ! b) =
           (case i of
              TzResolved a r n \<Rightarrow>
                (case r of
                   Inl e \<Rightarrow> authed (objs g ! b)
                 | Inr v \<Rightarrow> if a = b \<and> \<not> requireAuth cfg then True else authed (objs g ! b))
            | VerifyResolved a r \<Rightarrow>
                (case r of
                   Inl e \<Rightarrow> authed (objs g ! b)
                 | Inr ok \<Rightarrow> if a = b then ok else authed (objs g ! b))
            | _ \<Rightarrow> authed (objs g ! b))
         \<and> (i = VerifyResolved b (Inr False) \<longrightarrow>
               ws (objs g1 ! b)
               = (if requireAuth cfg \<and> ws (objs g ! b) = OPEN then CLOSING else ws (objs g ! b)))"
proof (cases "setsAuthed i")
  case False
  with assms have "authed (objs g1 ! b) = authed (objs g ! b)"
    by (rule_tac authed_other_steps)
  with False show ?thesis
    by (cases i) (simp_all add: setsAuthed_def)
next
  case True
  then consider (tz) a r n where "i = TzResolved a r n" | (vf) a r where "i = VerifyResolved a r"
    by (cases i) (simp_all add: setsAuthed_def)
  then show ?thesis
  proof cases
    case tz
    with assms show ?thesis
      by (auto simp: authed_helloResumed split: if_splits sum.splits)
  next
    case vf
    with assms show ?thesis
      by (auto simp: authed_authResumed ws_authResumed_failed split: if_splits sum.splits)
  qed
qed

text \<open>The state in which the AUTH handler of session 0 awaits the verification.\<close>

lemma awaiting_verify_state:
  "objs (after demoCfg (take 5 badAuthTrace)) =
     [\<lparr>sessionId = js ''A'', ws = OPEN, remote = js ''10.0.0.1'', deviceId = js ''devA'',
       helloAt = Some 0, payloadId = None, nonceB64 = Some (js ''nA''), authed = True,
       captureActive = False, proxySock = None, ffmpeg = None,
       tzOffsetHours = Some (Finite 0), helloTimer = True, sessionClosed = False\<rparr>]"
  "pending (after demoCfg (take 5 badAuthTrace)) = [HelloTimer 0, AwaitParams 0, AwaitVerify 0]"
  by (simp_all add: after_def badAuthTrace_def demoCfg_def eval_defs)

theorem authed_transitions_witness:
  "authed (objs (after demoCfg (take 5 badAuthTrace)) ! 0) = True
   \<and> authed (objs (authResumed demoCfg 0 (Inr False)
                      (resume (AwaitVerify 0) (after demoCfg (take 5 badAuthTrace)))) ! 0) = False
   \<and> ws (objs (authResumed demoCfg 0 (Inr False)
                      (resume (AwaitVerify 0) (after demoCfg (take 5 badAuthTrace)))) ! 0) = OPEN"
proof -
  let ?g = "after demoCfg (take 5 badAuthTrace)"
  have s: "step demoCfg (VerifyResolved 0 (Inr False)) ?g
           = Some (authResumed demoCfg 0 (Inr False) (resume (AwaitVerify 0) ?g))"
    by (simp add: awaited_def awaiting_verify_state)
  have l: "0 < length (objs ?g)"
    by (simp add: awaiting_verify_state)
  have r: "requireAuth demoCfg = False"
    by (simp add: demoCfg_def)
  show ?thesis
    using authed_transitions [OF s l] r
    by (simp add: awaiting_verify_state)
qed


subsection \<open>The captured event\<close>

text \<open>The message of the failure raised when ffmpeg has closed.\<close>

definition captureFailureMessage :: "int option \<Rightarrow> jsstring" where
  "captureFailureMessage code =
     (if code = Some 0 then js ''ffmpeg success but file not found''
      else js ''ffmpeg failed (exit '' @ showInt (case code of None \<Rightarrow> 1 | Some n \<Rightarrow> n) @ js '')'')"

lemma capturedEvent_update [simp]:
  "capturedEvent (s\<lparr>captureActive := x\<rparr>) f t = capturedEvent s f t"
  "capturedEvent (s\<lparr>ffmpeg := y\<rparr>) f t = capturedEvent s f t"
  "capturedEvent (s\<lparr>ws := z\<rparr>) f t = capturedEvent s f t"
  by (simp_all add: capturedEvent_def)

lemma failedEvent_update [simp]:
  "failedEvent (s\<lparr>captureActive := x\<rparr>) st m = failedEvent s st m"
  "failedEvent (s\<lparr>ffmpeg := y\<rparr>) st m = failedEvent s st m"
  "failedEvent (s\<lparr>ws := z\<rparr>) st m = failedEvent s st m"
  by (simp_all add: failedEvent_def)

lemma emitted_ffmpegClosed:
  "emitted (ffmpegClosed a f code file t g) =
     emitted g @
     [if code = Some 0 \<and> file \<noteq> None
      then Captured (capturedEvent (objs g ! a) f t)
      else Failed (failedEvent (objs g ! a) capture (captureFailureMessage code))]"
  by (cases "a < length (objs g)")
    (auto simp: ffmpegClosed_def captureOnceEnd_def captureFailed_def captureFailureMessage_def
      Let_def nth_list_update_if split: option.splits)

lemma quiet_steps_emit_failures_only:
  assumes "step cfg i g = Some g1" and "\<not> isFfmpegClosed i"
  shows "\<exists>es. emitted g1 = emitted g @ es \<and> list_all isFailed es"
proof -
  have "frame (\<lambda>s s1. True) (\<lambda>s. True) isFailed g g1"
    using assms(1) plain_trivial
    by (rule frame_step) (simp_all add: authing_def binding_def isFailed_def assms(2))
  then show ?thesis
    by (simp add: frame_def)
qed

text \<open>A capture whose ffmpeg exits with code 0 and leaves an empty output file.\<close>

definition emptyFileTrace :: "input list" where
  "emptyFileTrace =
     captureTrace @
     [FfmpegClosed 0 0 (js ''/tmp/devA/snap-t1.jpg'') (Some 0) (Some 0) (js ''t2'')]"

text \<open>
  Claim C1 as stated fails: the length of the output file is never read. With exit code
  0 and an output file of length 0 the captured event is emitted.
\<close>

theorem captured_with_empty_file:
  "run demoCfg emptyFileTrace initial \<noteq> None
   \<and> emitted (after demoCfg emptyFileTrace)
     = [Captured \<lparr>evSessionId = js ''A'', evDeviceId = js ''devA'', evPayloadId = None,
                   evRemote = js ''10.0.0.1'', localPath = js ''/tmp/devA/snap-t1.jpg'',
                   capturedAt = js ''t2'', evTzOffsetHours = Some (Finite 0)\<rparr>]"
  by (simp add: after_def emptyFileTrace_def captureTrace_def demoCfg_def demoMeta_def eval_defs)

text \<open>
  Claim C1, amended. A turn of the gateway emits a \<open>snapshot:captured\<close> event if and
  only if it is the continuation of a capture whose ffmpeg exited with code 0 and whose
  output file exists; the length of the file is not examined. When the exit code is not
  0 (or the process was killed or could not start), or the file does not exist, that
  continuation emits no captured event and a \<open>snapshot:failed\<close> event of stage
  \<open>capture\<close> instead.
\<close>

theorem captured_iff_exit_zero_and_file_exists:
  assumes "step cfg i g = Some g1"
  shows "\<exists>es. emitted g1 = emitted g @ es
           \<and> ((\<exists>c. Captured c \<in> set es)
                \<longleftrightarrow> (\<exists>a p f n t. i = FfmpegClosed a p f (Some 0) (Some n) t))
           \<and> (\<forall>a p f code file t. i = FfmpegClosed a p f code file t \<longrightarrow>
                 es = [if code = Some 0 \<and> file \<noteq> None
                       then Captured (capturedEvent (objs g ! a) f t)
                       else Failed (failedEvent (objs g ! a) capture
                                      (captureFailureMessage code))])"
proof (cases "isFfmpegClosed i")
  case False
  from quiet_steps_emit_failures_only [OF assms False]
  obtain es where es: "emitted g1 = emitted g @ es" "list_all isFailed es"
    by blast
  from es(2) have "\<not> (\<exists>c. Captured c \<in> set es)"
    by (auto simp: list_all_iff isFailed_def)
  moreover from False have "\<not> (\<exists>a p f n t. i = FfmpegClosed a p f (Some 0) (Some n) t)"
    by (auto simp: isFfmpegClosed_def)
  moreover from False have "\<forall>a p f code file t. i \<noteq> FfmpegClosed a p f code file t"
    by (auto simp: isFfmpegClosed_def)
  ultimately show ?thesis
    using es(1) by blast
next
  case True
  then obtain a p f code fl t where i: "i = FfmpegClosed a p f code fl t"
    by (cases i) (simp_all add: isFfmpegClosed_def)
  let ?e = "if code = Some 0 \<and> fl \<noteq> None
            then Captured (capturedEvent (objs g ! a) f t)
            else Failed (failedEvent (objs g ! a) capture (captureFailureMessage code))"
  from assms i have 1: "emitted g1 = emitted g @ [?e]"
    by (auto simp: emitted_ffmpegClosed split: if_splits)
  have "(\<exists>c. Captured c \<in> set [?e]) \<longleftrightarrow> (code = Some 0 \<and> fl \<noteq> None)"
    by simp
  moreover have "(\<exists>a p f n t. i = FfmpegClosed a p f (Some 0) (Some n) t)
                 \<longleftrightarrow> (code = Some 0 \<and> fl \<noteq> None)"
    by (simp add: i)
  ultimately have 2: "(\<exists>c. Captured c \<in> set [?e])
                 \<longleftrightarrow> (\<exists>a p f n t. i = FfmpegClosed a p f (Some 0) (Some n) t)"
    by (simp only:)
  have 3: "\<forall>a' p' f' code' file' t'. i = FfmpegClosed a' p' f' code' file' t' \<longrightarrow>
                   [?e] = [if code' = Some 0 \<and> file' \<noteq> None
                           then Captured (capturedEvent (objs g ! a') f' t')
                           else Failed (failedEvent (objs g ! a') capture
                                          (captureFailureMessage code'))]"
    by (simp add: i)
  from 1 2 3 show ?thesis
    by (intro exI [of _ "[?e]"] conjI)
qed

theorem captured_iff_exit_zero_and_file_exists_witness:
  "emitted (ffmpegClosed 0 (js ''/tmp/devA/snap-t1.jpg'') (Some 1) None (js ''t2'')
             (resume (AwaitFfmpeg 0 0 (js ''/tmp/devA/snap-t1.jpg'')) (after demoCfg captureTrace)))
   = [Failed \<lparr>evSessionId = js ''A'', evDeviceId = js ''devA'', evPayloadId = None,
               evRemote = js ''10.0.0.1'', stage = capture,
               error = js ''ffmpeg failed (exit 1)''\<rparr>]"
proof -
  let ?g = "after demoCfg captureTrace"
  let ?f = "js ''/tmp/devA/snap-t1.jpg''"
  let ?g1 = "ffmpegClosed 0 ?f (Some 1) None (js ''t2'') (resume (AwaitFfmpeg 0 0 ?f) ?g)"
  have s: "step demoCfg (FfmpegClosed 0 0 ?f (Some 1) None (js ''t2'')) ?g = Some ?g1"
    by (simp add: awaited_def capturing_state)
  have e: "emitted ?g = []"
    by (simp add: after_def captureTrace_def demoCfg_def demoMeta_def eval_defs)
  have m: "captureFailureMessage (Some 1) = js ''ffmpeg failed (exit 1)''"
    by code_simp
  from captured_iff_exit_zero_and_file_exists [OF s] e
  have "emitted ?g1 = [Failed (failedEvent (objs ?g ! 0) capture (captureFailureMessage (Some 1)))]"
    by auto
  then show ?thesis
    by (simp add: m capturing_state failedEvent_def)
qed


subsection \<open>The camera profile\<close>















subsection \<open>HELLO on a session that has said HELLO before\<close>

lemma trim_idem: "trim (trim s) = trim s"
proof -
  define t where "t = dropWhile isWhiteSpace s"
  define u where "u = dropWhile isWhiteSpace (rev t)"
  have ts: "trim s = rev u"
    by (simp add: trim_def t_def u_def)
  have "dropWhile isWhiteSpace (rev u) = rev u"
  proof (cases "u = []")
    case True
    then show ?thesis by simp
  next
    case False
    have "rev t = takeWhile isWhiteSpace (rev t) @ u"
      by (simp add: u_def)
    then have "t = rev u @ rev (takeWhile isWhiteSpace (rev t))"
      by (metis rev_append rev_rev_ident)
    with False have h: "hd (rev u) = hd t" and tn: "t \<noteq> []"
      by (metis hd_append2 rev_is_Nil_conv, metis Nil_is_append_conv rev_is_Nil_conv)
    from tn have "\<not> isWhiteSpace (hd t)"
      unfolding t_def by (rule hd_dropWhile)
    with h False show ?thesis
      by (cases "rev u") simp_all
  qed
  moreover have "dropWhile isWhiteSpace u = u"
    by (simp add: u_def)
  ultimately show ?thesis
    by (simp add: ts) (simp add: trim_def)
qed

lemma splitWs_nonempty: "splitWs b cur xs \<noteq> []"
  by (induction xs arbitrary: b cur) simp_all

lemma isWhiteSpace_unat:
  "isWhiteSpace c \<Longrightarrow> unat c < 0x41 \<or> 0x7A < unat c"
  unfolding isWhiteSpace_def
  by (auto simp: word_le_nat_alt)

lemma upper_is_space:
  assumes "(if 0x61 \<le> c \<and> c \<le> 0x7A then c - 0x20 else c) = (0x20 :: jschar)"
  shows "c = 0x20"
proof (cases "0x61 \<le> c \<and> c \<le> 0x7A")
  case True
  then have "unat c - 32 = unat (c - 0x20)"
    by (simp add: unat_sub word_le_nat_alt)
  with True assms show ?thesis
    by (simp add: word_le_nat_alt)
next
  case False
  with assms show ?thesis
    by simp
qed

lemma upper_is_letter:
  assumes "(if 0x61 \<le> c \<and> c \<le> 0x7A then c - 0x20 else c) = (k :: jschar)"
    and "0x41 \<le> k" and "k \<le> 0x5A"
  shows "\<not> isWhiteSpace c"
proof (cases "0x61 \<le> c \<and> c \<le> 0x7A")
  case True
  then have "0x41 \<le> unat c \<and> unat c \<le> 0x7A"
    by (simp add: word_le_nat_alt)
  then show ?thesis
    using isWhiteSpace_unat [of c] by auto
next
  case False
  with assms(1) have "c = k"
    by (simp split: if_splits)
  with assms(2,3) have "0x41 \<le> unat c \<and> unat c \<le> 0x5A"
    by (simp add: word_le_nat_alt)
  then show ?thesis
    using isWhiteSpace_unat [of c] by auto
qed

text \<open>
  A message that passes the test \<^verbatim>\<open>msg.toUpperCase().startsWith("HELLO ")\<close> is never
  refused by \<open>parseHello\<close>: the branch \<open>HELLO_FAIL invalid_format\<close> is dead.
\<close>

lemma hello_prefix_parses:
  assumes "startsWith (toUpperCase (trim d)) (js ''HELLO '')"
  shows "\<exists>pid dev. parseHello (trim d) = Some (pid, dev)"
proof -
  let ?up = "\<lambda>c :: jschar. if 0x61 \<le> c \<and> c \<le> 0x7A then c - 0x20 else c"
  have l: "length (js ''HELLO '') = 6"
    by (simp add: js_def)
  have j: "js ''HELLO '' = [0x48, 0x45, 0x4C, 0x4C, 0x4F, 0x20]"
    by (simp add: js_def)
  from assms have "take 6 (map ?up (trim d)) = js ''HELLO ''"
    unfolding startsWith_def toUpperCase_def l .
  then have p: "take 6 (map ?up (trim d)) = [0x48, 0x45, 0x4C, 0x4C, 0x4F, 0x20]"
    unfolding j .
  have "length (take 6 (map ?up (trim d))) = 6"
    by (simp only: p) simp
  then have "6 \<le> length (trim d)"
    by simp
  then obtain c1 c2 c3 c4 c5 c6 rest where m: "trim d = c1 # c2 # c3 # c4 # c5 # c6 # rest"
    by (auto simp: numeral_eq_Suc Suc_le_length_iff)
  with p have u: "?up c1 = 0x48" "?up c2 = 0x45" "?up c3 = 0x4C" "?up c4 = 0x4C" "?up c5 = 0x4F"
    "?up c6 = 0x20"
    by simp_all
  have n: "\<not> isWhiteSpace c1" "\<not> isWhiteSpace c2" "\<not> isWhiteSpace c3"
    "\<not> isWhiteSpace c4" "\<not> isWhiteSpace c5"
    using upper_is_letter [OF u(1)] upper_is_letter [OF u(2)] upper_is_letter [OF u(3)]
      upper_is_letter [OF u(4)] upper_is_letter [OF u(5)]
    by simp_all
  have c6: "isWhiteSpace c6"
    using upper_is_space [OF u(6)] by (simp add: isWhiteSpace_def)
  have s: "split_ws (trim d) = [c1, c2, c3, c4, c5] # splitWs True [] rest"
    by (simp add: split_ws_def m n c6)
  obtain x xs where r: "splitWs True [] rest = x # xs"
    using splitWs_nonempty [of True "[]" rest] by (cases "splitWs True [] rest") simp_all
  have h: "toUpperCase [c1, c2, c3, c4, c5] = js ''HELLO''"
    using u(1-5) by (simp add: toUpperCase_def js_def)
  show ?thesis
    by (cases xs) (simp_all add: parseHello_def trim_idem s r h Let_def)
qed


lemma onText_hello:
  assumes "a < length (objs g)" and "startsWith (toUpperCase (trim d)) (js ''HELLO '')"
    and "parseHello (trim d) = Some (pid, dev)"
  shows "onText a d now g
         = await (AwaitTz a)
             (modify a (\<lambda>s. s\<lparr>payloadId := pid, deviceId := safeDeviceId dev,
                                  helloAt := Some now\<rparr>) g)"
  using assms by (simp add: onText_def onHello_def Let_def)

lemma helloResumed_inr:
  assumes "a < length (objs h)" and "isWsOpen (objs h ! a)"
  shows "nonceB64 (objs (helloResumed cfg a (Inr v) nonce h) ! a) = Some nonce"
    and "tzOffsetHours (objs (helloResumed cfg a (Inr v) nonce h) ! a)
         = sanitizeTzOffsetHours (strToNum cfg) v"
    and "wsOut (helloResumed cfg a (Inr v) nonce h)
         = wsOut h @ (a, Text (js ''CHAL '' @ nonce))
             # (if requireAuth cfg then [] else [(a, Text (js ''AUTH_OK''))])"
    and "authed (objs (helloResumed cfg a (Inr v) nonce h) ! a)
         = (if requireAuth cfg then authed (objs h ! a) else True)"
    and "pending (helloResumed cfg a (Inr v) nonce h)
         = pending h
           @ (if \<not> requireAuth cfg \<and> autoCapture cfg \<and> \<not> captureActive (objs h ! a)
                 \<and> \<not> globalCaptureInFlight h \<and> deviceId (objs h ! a) \<noteq> js ''unknown''
              then [AwaitParams a] else [])"
  using assms
  by (simp_all add: helloResumed_def maybeAutoCapture_def sendText_def wsSend_def modify_def
      await_def isWsOpen_def Let_def)

definition helloLookupFails :: "input list" where
  "helloLookupFails =
     [Start,
      Connection (js ''A'') (js ''10.0.0.1''),
      TextMessage 0 (js ''HELLO devA'') 0,
      TzResolved 0 (Inr JNull) (js ''nA''),
      TextMessage 0 (js ''HELLO devB'') 5,
      TzResolved 0 (Inl (js ''connection terminated'')) (js ''nB'')]"

definition helloAgain :: "input list" where
  "helloAgain =
     [Start,
      Connection (js ''A'') (js ''10.0.0.1''),
      TextMessage 0 (js ''HELLO devA'') 0,
      TzResolved 0 (Inr JNull) (js ''nA'')]"

text \<open>
  Claim C10 as stated fails when the lookup of the device fails: the HELLO has
  overwritten \<open>deviceId\<close>, and the handler ends there, with the old nonce and no new
  CHAL.
\<close>

theorem hello_without_challenge:
  "run demoCfg helloLookupFails initial \<noteq> None
   \<and> deviceId (objs (after demoCfg helloLookupFails) ! 0) = js ''devB''
   \<and> isWsOpen (objs (after demoCfg helloLookupFails) ! 0)
   \<and> nonceB64 (objs (after demoCfg helloLookupFails) ! 0) = Some (js ''nA'')
   \<and> wsOut (after demoCfg helloLookupFails)
      = [(0, Text (js ''READY'')), (0, Text (js ''CHAL nA'')), (0, Text (js ''AUTH_OK''))]"
  by (simp add: after_def helloLookupFails_def demoCfg_def eval_defs)

text \<open>
  Claim C10, amended. For every open session in any state, also after AUTH_OK, a text
  message that begins with \<open>HELLO\<close> and a space, in any case, is never rejected: it
  overwrites the session's \<open>payloadId\<close>, \<open>deviceId\<close> and \<open>helloAt\<close>, sends nothing
  yet, and awaits the lookup of the device. When the lookup returns and the session is
  still open, the handler sets a fresh nonce and the offset of the device, sends a new
  CHAL, and when \<open>REQUIRE_AUTH\<close> is off sets \<open>authed\<close>, sends AUTH_OK again and starts
  another auto-capture if \<open>AUTO_CAPTURE\<close> is on, no capture is active or in flight and
  the device is not \<open>unknown\<close>. When the lookup fails, the handler ends and nothing more
  changes.
\<close>

theorem hello_reprocessed:
  "(a < length (objs g) \<and> isWsOpen (objs g ! a)
      \<and> startsWith (toUpperCase (trim d)) (js ''HELLO '') \<longrightarrow>
      (\<exists>pid dev. parseHello (trim d) = Some (pid, dev)
         \<and> step cfg (TextMessage a d now) g = Some (onText a d now g)
         \<and> payloadId (objs (onText a d now g) ! a) = pid
         \<and> deviceId (objs (onText a d now g) ! a) = safeDeviceId dev
         \<and> helloAt (objs (onText a d now g) ! a) = Some now
         \<and> wsOut (onText a d now g) = wsOut g
         \<and> pending (onText a d now g) = pending g @ [AwaitTz a]))
   \<and> (a < length (objs h) \<and> isWsOpen (objs h ! a) \<and> awaited h (AwaitTz a) \<longrightarrow>
      (\<exists>h1. step cfg (TzResolved a (Inr v) nonce) h = Some h1
         \<and> nonceB64 (objs h1 ! a) = Some nonce
         \<and> tzOffsetHours (objs h1 ! a) = sanitizeTzOffsetHours (strToNum cfg) v
         \<and> wsOut h1 = wsOut h @ (a, Text (js ''CHAL '' @ nonce))
                         # (if requireAuth cfg then [] else [(a, Text (js ''AUTH_OK''))])
         \<and> authed (objs h1 ! a) = (if requireAuth cfg then authed (objs h ! a) else True)
         \<and> pending h1
            = remove1 (AwaitTz a) (pending h)
              @ (if \<not> requireAuth cfg \<and> autoCapture cfg \<and> \<not> captureActive (objs h ! a)
                    \<and> \<not> globalCaptureInFlight h \<and> deviceId (objs h ! a) \<noteq> js ''unknown''
                 then [AwaitParams a] else [])))
   \<and> (awaited h (AwaitTz a) \<longrightarrow>
      step cfg (TzResolved a (Inl e) nonce) h = Some (resume (AwaitTz a) h)
      \<and> objs (resume (AwaitTz a) h) = objs h \<and> wsOut (resume (AwaitTz a) h) = wsOut h)"
proof (intro conjI impI)
  assume A: "a < length (objs g) \<and> isWsOpen (objs g ! a)
      \<and> startsWith (toUpperCase (trim d)) (js ''HELLO '')"
  then obtain pid dev where p: "parseHello (trim d) = Some (pid, dev)"
    using hello_prefix_parses by blast
  from A have l: "live g a"
    by (simp add: live_def isWsOpen_def)
  from A p have o: "onText a d now g
         = await (AwaitTz a)
             (modify a (\<lambda>s. s\<lparr>payloadId := pid, deviceId := safeDeviceId dev,
                                  helloAt := Some now\<rparr>) g)"
    by (simp add: onText_hello)
  from A have "payloadId (objs (onText a d now g) ! a) = pid"
    and "deviceId (objs (onText a d now g) ! a) = safeDeviceId dev"
    and "helloAt (objs (onText a d now g) ! a) = Some now"
    and "wsOut (onText a d now g) = wsOut g"
    and "pending (onText a d now g) = pending g @ [AwaitTz a]"
    by (simp_all add: o await_def modify_def)
  with p l show "\<exists>pid dev. parseHello (trim d) = Some (pid, dev)
         \<and> step cfg (TextMessage a d now) g = Some (onText a d now g)
         \<and> payloadId (objs (onText a d now g) ! a) = pid
         \<and> deviceId (objs (onText a d now g) ! a) = safeDeviceId dev
         \<and> helloAt (objs (onText a d now g) ! a) = Some now
         \<and> wsOut (onText a d now g) = wsOut g
         \<and> pending (onText a d now g) = pending g @ [AwaitTz a]"
    by simp
next
  assume B: "a < length (objs h) \<and> isWsOpen (objs h ! a) \<and> awaited h (AwaitTz a)"
  let ?h = "resume (AwaitTz a) h"
  from B have r: "a < length (objs ?h)" "isWsOpen (objs ?h ! a)"
    by (simp_all add: resume_def)
  have k: "objs ?h = objs h" "wsOut ?h = wsOut h" "pending ?h = remove1 (AwaitTz a) (pending h)"
    "globalCaptureInFlight ?h = globalCaptureInFlight h"
    by (simp_all add: resume_def)
  from B have s: "step cfg (TzResolved a (Inr v) nonce) h
                  = Some (helloResumed cfg a (Inr v) nonce ?h)"
    by simp
  show "\<exists>h1. step cfg (TzResolved a (Inr v) nonce) h = Some h1
         \<and> nonceB64 (objs h1 ! a) = Some nonce
         \<and> tzOffsetHours (objs h1 ! a) = sanitizeTzOffsetHours (strToNum cfg) v
         \<and> wsOut h1 = wsOut h @ (a, Text (js ''CHAL '' @ nonce))
                         # (if requireAuth cfg then [] else [(a, Text (js ''AUTH_OK''))])
         \<and> authed (objs h1 ! a) = (if requireAuth cfg then authed (objs h ! a) else True)
         \<and> pending h1
            = remove1 (AwaitTz a) (pending h)
              @ (if \<not> requireAuth cfg \<and> autoCapture cfg \<and> \<not> captureActive (objs h ! a)
                    \<and> \<not> globalCaptureInFlight h \<and> deviceId (objs h ! a) \<noteq> js ''unknown''
                 then [AwaitParams a] else [])"
    unfolding s using helloResumed_inr [OF r, of cfg v nonce]
    by (simp only: k option.inject simp_thms ex_simps)
next
  assume "awaited h (AwaitTz a)"
  then show "step cfg (TzResolved a (Inl e) nonce) h = Some (resume (AwaitTz a) h)"
    by (simp add: helloResumed_def)
next
  show "objs (resume (AwaitTz a) h) = objs h"
    by (simp add: resume_def)
next
  show "wsOut (resume (AwaitTz a) h) = wsOut h"
    by (simp add: resume_def)
qed

lemma hello_again_state:
  "run demoCfg helloAgain initial \<noteq> None"
  "objs (after demoCfg helloAgain) =
     [\<lparr>sessionId = js ''A'', ws = OPEN, remote = js ''10.0.0.1'', deviceId = js ''devA'',
       helloAt = Some 0, payloadId = None, nonceB64 = Some (js ''nA''), authed = True,
       captureActive = False, proxySock = None, ffmpeg = None,
       tzOffsetHours = Some (Finite 0), helloTimer = True, sessionClosed = False\<rparr>]"
  "wsOut (after demoCfg helloAgain)
     = [(0, Text (js ''READY'')), (0, Text (js ''CHAL nA'')), (0, Text (js ''AUTH_OK''))]"
  "pending (after demoCfg helloAgain) = [HelloTimer 0, AwaitParams 0]"
  "globalCaptureInFlight (after demoCfg helloAgain) = False"
  by (simp_all add: after_def helloAgain_def demoCfg_def eval_defs)

theorem hello_reprocessed_witness:
  "authed (objs (after demoCfg helloAgain) ! 0)
   \<and> parseHello (trim (js '' hello p7 dev/B '')) = Some (Some (js ''p7''), js ''dev/B'')
   \<and> (\<exists>h. step demoCfg (TextMessage 0 (js '' hello p7 dev/B '') 5) (after demoCfg helloAgain)
            = Some h
         \<and> deviceId (objs h ! 0) = js ''dev_B'' \<and> payloadId (objs h ! 0) = Some (js ''p7'')
         \<and> wsOut h = wsOut (after demoCfg helloAgain)
         \<and> (\<exists>h1. step demoCfg (TzResolved 0 (Inr JNull) (js ''nB'')) h = Some h1
               \<and> nonceB64 (objs h1 ! 0) = Some (js ''nB'')
               \<and> wsOut h1 = wsOut h @ [(0, Text (js ''CHAL nB'')), (0, Text (js ''AUTH_OK''))]
               \<and> pending h1 = [HelloTimer 0, AwaitParams 0, AwaitParams 0]))"
proof -
  let ?g = "after demoCfg helloAgain"
  let ?d = "js '' hello p7 dev/B ''"
  let ?h = "onText 0 ?d 5 ?g"
  note st = hello_again_state
  have t: "trim ?d = js ''hello p7 dev/B''"
    by (simp add: trim_def isWhiteSpace_def js_def)
  have pre: "startsWith (toUpperCase (trim ?d)) (js ''HELLO '')"
    unfolding t by (simp add: startsWith_def toUpperCase_def js_def)
  have parse: "parseHello (trim ?d) = Some (Some (js ''p7''), js ''dev/B'')"
    unfolding t
    by (simp add: parseHello_def split_ws_def trim_def toUpperCase_def isWhiteSpace_def js_def)
  have sd: "safeDeviceId (js ''dev/B'') = js ''dev_B''"
    by (simp add: safeDeviceId_def isIdChar_def js_def)
  have A: "0 < length (objs ?g) \<and> isWsOpen (objs ?g ! 0)
           \<and> startsWith (toUpperCase (trim ?d)) (js ''HELLO '')"
    using pre by (simp add: st isWsOpen_def)
  from hello_reprocessed [of 0 ?g ?d demoCfg 5, THEN conjunct1, THEN mp, OF A] parse sd
  have 1: "step demoCfg (TextMessage 0 ?d 5) ?g = Some ?h"
    and 2: "deviceId (objs ?h ! 0) = js ''dev_B''" "payloadId (objs ?h ! 0) = Some (js ''p7'')"
    and 3: "wsOut ?h = wsOut ?g" "pending ?h = pending ?g @ [AwaitTz 0]"
    by auto
  have o: "objs ?h = [(objs ?g ! 0)\<lparr>payloadId := Some (js ''p7''), deviceId := js ''dev_B'',
                                      helloAt := Some 5\<rparr>]"
    using onText_hello [of 0 ?g ?d "Some (js ''p7'')" "js ''dev/B''" 5] pre parse
    by (simp add: st sd await_def modify_def)
  have B: "0 < length (objs ?h) \<and> isWsOpen (objs ?h ! 0) \<and> awaited ?h (AwaitTz 0)"
    by (simp add: o 3 awaited_def) (simp add: st isWsOpen_def)
  have gi: "\<not> globalCaptureInFlight ?h"
    using onText_hello [of 0 ?g ?d "Some (js ''p7'')" "js ''dev/B''" 5] pre parse
    by (simp add: st await_def modify_def)
  have rq: "\<not> requireAuth demoCfg \<and> autoCapture demoCfg"
    by (simp add: demoCfg_def)
  have c1: "\<not> captureActive (objs ?h ! 0)"
    by (simp add: o st)
  have c2: "deviceId (objs ?h ! 0) \<noteq> js ''unknown''"
    using 2(1) by (simp add: js_def)
  from rq c1 gi c2
  have c: "\<not> requireAuth demoCfg \<and> autoCapture demoCfg \<and> \<not> captureActive (objs ?h ! 0)
           \<and> \<not> globalCaptureInFlight ?h \<and> deviceId (objs ?h ! 0) \<noteq> js ''unknown''"
    by blast
  from hello_reprocessed [of 0 ?g ?d demoCfg 5 ?h "JNull" "js ''nB''", THEN conjunct2,
      THEN conjunct1, THEN mp, OF B]
  obtain h1 where 4: "step demoCfg (TzResolved 0 (Inr JNull) (js ''nB'')) ?h = Some h1"
    and 5: "nonceB64 (objs h1 ! 0) = Some (js ''nB'')"
    and 6: "wsOut h1 = wsOut ?h @ (0, Text (js ''CHAL '' @ js ''nB''))
                         # (if requireAuth demoCfg then [] else [(0, Text (js ''AUTH_OK''))])"
    and 7: "pending h1 = remove1 (AwaitTz 0) (pending ?h)
              @ (if \<not> requireAuth demoCfg \<and> autoCapture demoCfg \<and> \<not> captureActive (objs ?h ! 0)
                    \<and> \<not> globalCaptureInFlight ?h \<and> deviceId (objs ?h ! 0) \<noteq> js ''unknown''
                 then [AwaitParams 0] else [])"
    by blast
  from 6 rq have w6: "wsOut h1 = wsOut ?h @ [(0, Text (js ''CHAL nB'')), (0, Text (js ''AUTH_OK''))]"
    by (simp add: js_def)
  from 7 c have w7: "pending h1 = [HelloTimer 0, AwaitParams 0, AwaitParams 0]"
    by (simp add: 3 st)
  have a: "authed (objs ?g ! 0)"
    by (simp add: st)
  from a parse 1 2 3 4 5 w6 w7 show ?thesis
    by blast
qed


subsection \<open>The capture slot\<close>

text \<open>
  Claim C2 fails of the code. Session A holds the capture slot when its WebSocket
  closes: \<open>cleanup\<close> kills ffmpeg and releases the slot, which session B then reserves.
  When the killed ffmpeg of A closes, the rest of A's \<open>captureOnce\<close> clears
  \<open>globalCaptureInFlight\<close> and \<open>globalCaptureSessionId\<close>, which are B's by then, and
  session C reserves the slot while B is capturing: two sessions of the table have
  \<open>captureActive\<close> set, and two ffmpeg processes are running.
\<close>

theorem capture_slot_race:
  "run demoCfg raceTrace initial \<noteq> None
   \<and> sessions (after demoCfg raceTrace) = [(js ''B'', 1), (js ''C'', 2)]
   \<and> captureActive (objs (after demoCfg raceTrace) ! 1)
   \<and> captureActive (objs (after demoCfg raceTrace) ! 2)
   \<and> ffmpeg (objs (after demoCfg raceTrace) ! 1) = Some 1
   \<and> ffmpeg (objs (after demoCfg raceTrace) ! 2) = Some 2
   \<and> killed (after demoCfg raceTrace) = [0]
   \<and> globalCaptureSessionId (after demoCfg raceTrace) = Some (js ''C'')
   \<and> pending (after demoCfg raceTrace)
      = [HelloTimer 1, AwaitFfmpeg 1 1 (js ''/tmp/devB/snap-t2.jpg''),
         HelloTimer 2, AwaitFfmpeg 2 2 (js ''/tmp/devC/snap-t4.jpg'')]"
  by (simp add: after_def raceTrace_def demoCfg_def demoMeta_def eval_defs)


end
